theory Spec2Isabelle
  imports Main
begin

section \<open>The filesystem as the program sees it\<close>

text \<open>
  \<^verbatim>\<open>package.py\<close> keeps no state of its own: every status is computed from the disk, and
  every command changes the disk. The disk is modelled as a flat namespace from path
  strings to entries. An entry is a regular file with its bytes, a symbolic link with
  the text it holds, or a directory. The tree structure below a directory is not
  tracked: \<^verbatim>\<open>os.makedirs(parent, exist_ok=True)\<close> therefore leaves the namespace as it
  is and never fails. A link's text is looked up as written (merge writes absolute
  paths): a relative or unnormalised link text, and a link in a parent directory of a
  path, are not resolved, so two different strings never name the same entry.
\<close>

type_synonym path = string

datatype entry = Regular string | Symlink path | Directory

type_synonym filesystem = "path \<Rightarrow> entry option"

datatype error =
    NotSupported
  | RecursionError
  | FileExistsError
  | FileNotFoundError
  | IsADirectoryError
  | OSError
  | UnexpectedStatus

text \<open>
  \<^verbatim>\<open>os.stat\<close> follows symbolic links, and gives up (ELOOP) after \<open>SYMLOOP_MAX\<close>
  of them.
\<close>

definition SYMLOOP_MAX :: nat where
  "SYMLOOP_MAX = 40"

fun follow :: "nat \<Rightarrow> filesystem \<Rightarrow> path \<Rightarrow> entry option" where
  "follow 0 fs p = (case fs p of Some (Symlink t) \<Rightarrow> None | e \<Rightarrow> e)"
| "follow (Suc k) fs p = (case fs p of Some (Symlink t) \<Rightarrow> follow k fs t | e \<Rightarrow> e)"

definition isfile :: "filesystem \<Rightarrow> path \<Rightarrow> bool" where
  "isfile fs p = (case follow SYMLOOP_MAX fs p of Some (Regular c) \<Rightarrow> True | _ \<Rightarrow> False)"

definition os_readlink :: "filesystem \<Rightarrow> path \<Rightarrow> error + path" where
  "os_readlink fs p =
     (case fs p of
        None \<Rightarrow> Inl FileNotFoundError
      | Some (Symlink t) \<Rightarrow> Inr t
      | Some _ \<Rightarrow> Inl OSError)"

definition os_remove :: "path \<Rightarrow> filesystem \<Rightarrow> error + filesystem" where
  "os_remove p fs =
     (case fs p of
        None \<Rightarrow> Inl FileNotFoundError
      | Some Directory \<Rightarrow> Inl IsADirectoryError
      | Some _ \<Rightarrow> Inr (fs(p := None)))"

definition os_symlink :: "path \<Rightarrow> path \<Rightarrow> filesystem \<Rightarrow> error + filesystem" where
  "os_symlink src dst fs =
     (case fs dst of
        None \<Rightarrow> Inr (fs(dst \<mapsto> Symlink src))
      | Some _ \<Rightarrow> Inl FileExistsError)"

definition os_makedirs :: "path \<Rightarrow> filesystem \<Rightarrow> filesystem" where
  "os_makedirs d fs = fs"

subsection \<open>Path strings\<close>

text \<open>\<^verbatim>\<open>os.path.dirname\<close> and \<^verbatim>\<open>os.path.normpath\<close> of \<^verbatim>\<open>posixpath\<close>.\<close>

definition slash :: char where
  "slash = CHR ''/''"

definition dirname :: "path \<Rightarrow> path" where
  "dirname p =
     (let head = rev (dropWhile (\<lambda>c. c \<noteq> slash) (rev p))
      in if head \<noteq> [] \<and> \<not> list_all (\<lambda>c. c = slash) head
         then rev (dropWhile (\<lambda>c. c = slash) (rev head))
         else head)"

fun split_sep :: "string \<Rightarrow> string list" where
  "split_sep [] = [[]]"
| "split_sep (c # cs) =
     (if c = slash then [] # split_sep cs
      else (case split_sep cs of [] \<Rightarrow> [[c]] | w # ws \<Rightarrow> (c # w) # ws))"

fun norm_comps :: "nat \<Rightarrow> string list \<Rightarrow> string list \<Rightarrow> string list" where
  "norm_comps initial_slashes new_comps [] = new_comps"
| "norm_comps initial_slashes new_comps (cmp # comps) =
     (if cmp = [] \<or> cmp = ''.'' then norm_comps initial_slashes new_comps comps
      else if cmp \<noteq> ''..'' \<or> (initial_slashes = 0 \<and> new_comps = [])
                \<or> (new_comps \<noteq> [] \<and> last new_comps = ''..'')
      then norm_comps initial_slashes (new_comps @ [cmp]) comps
      else if new_comps \<noteq> [] then norm_comps initial_slashes (butlast new_comps) comps
      else norm_comps initial_slashes new_comps comps)"

fun join_sep :: "string list \<Rightarrow> string" where
  "join_sep [] = []"
| "join_sep [c] = c"
| "join_sep (c # cs) = c @ slash # join_sep cs"

definition normpath :: "path \<Rightarrow> path" where
  "normpath p =
     (if p = [] then ''.''
      else
        let initial_slashes =
              (if take 1 p = [slash]
               then (if take 2 p = [slash, slash] \<and> take 3 p \<noteq> [slash, slash, slash]
                     then 2 else 1)
               else (0::nat));
            comps = norm_comps initial_slashes [] (split_sep p);
            q = replicate initial_slashes slash @ join_sep comps
        in if q = [] then ''.'' else q)"

section \<open>Static helpers\<close>

text \<open>
  \<^verbatim>\<open>git_diff\<close> starts \<^verbatim>\<open>git diff --no-index file1 file2\<close> and reads its standard
  output. What the external program does is a parameter \<open>git\<close> of the model: the
  start of the process may fail (\<^verbatim>\<open>subprocess.Popen\<close> raises, outside the \<^verbatim>\<open>try\<close>),
  reading or decoding its output may fail (inside the \<^verbatim>\<open>try\<close>), or it prints a text.
  The result is paired with the lines \<^verbatim>\<open>git_diff\<close> prints itself.
\<close>

datatype git_run = Spawn_failed | Read_failed | Printed string

type_synonym git_tool = "filesystem \<Rightarrow> path \<Rightarrow> path \<Rightarrow> git_run"

definition is_space :: "char \<Rightarrow> bool" where
  "is_space c = (c \<in> set [CHR '' '', CHR 0x09, CHR 0x0A, CHR 0x0B, CHR 0x0C, CHR 0x0D,
                           CHR 0x1C, CHR 0x1D, CHR 0x1E, CHR 0x1F, CHR 0x85, CHR 0xA0])"

definition strip :: "string \<Rightarrow> string" where
  "strip s = rev (dropWhile is_space (rev (dropWhile is_space s)))"

definition git_diff :: "git_tool \<Rightarrow> filesystem \<Rightarrow> path \<Rightarrow> path \<Rightarrow> (error + bool) \<times> string list" where
  "git_diff git fs file1 file2 =
     (case git fs file1 file2 of
        Spawn_failed \<Rightarrow> (Inl OSError, [])
      | Read_failed \<Rightarrow> (Inr False, [''WARNING! Could not call git diff''])
      | Printed result \<Rightarrow> (Inr (strip result = []), []))"

section \<open>Classes\<close>

text \<open>
  The five statuses, which the source writes as the letters \<^verbatim>\<open>N\<close>, \<^verbatim>\<open>O\<close>, \<^verbatim>\<open>S\<close>, \<^verbatim>\<open>C\<close>
  and \<^verbatim>\<open>!\<close>.
\<close>

datatype status = Missing | Owned | Symlinked | Identical | Conflicted

text \<open>
  A \<^verbatim>\<open>File\<close> holds the list of its nodes, and a \<^verbatim>\<open>Node\<close> object is one position of
  that list: the node's methods take the file and the index, and \<^verbatim>\<open>n != self\<close> (object
  identity) is inequality of indices. Every node object is in the list of its file
  (\<^verbatim>\<open>File.create_node\<close>), so its index is below the length of the list. The registry
  \<^verbatim>\<open>Files\<close>, the scan of the layer directories in \<^verbatim>\<open>Layer.__init__\<close>, \<^verbatim>\<open>force_in\<close> and
  the command line are not part of the model.
\<close>

record Node =
  node_layer :: string
  node_path :: path

record File =
  file_rel_path :: path
  file_path :: path
  file_nodes :: "Node list"

text \<open>
  The loop at the end of \<^verbatim>\<open>Node.get_status\<close>, over the indices of \<^verbatim>\<open>self.file.nodes\<close>;
  \<open>st\<close> is the sibling's own \<^verbatim>\<open>get_status\<close>.
\<close>

fun sibling_scan :: "(nat \<Rightarrow> error + status) \<Rightarrow> nat \<Rightarrow> nat list \<Rightarrow> error + status" where
  "sibling_scan st self [] = Inr Conflicted"
| "sibling_scan st self (n # ns) =
     (if n \<noteq> self
      then (case st n of
              Inl e \<Rightarrow> Inl e
            | Inr s \<Rightarrow> if s = Identical \<or> s = Symlinked then Inr Owned
                       else sibling_scan st self ns)
      else sibling_scan st self ns)"

text \<open>
  \<^verbatim>\<open>Node.get_status\<close>. The first argument is the number of nested calls of
  \<^verbatim>\<open>get_status\<close> the interpreter still allows: Python raises \<^verbatim>\<open>RecursionError\<close> when its
  recursion limit is reached.
\<close>

primrec node_get_status :: "nat \<Rightarrow> git_tool \<Rightarrow> filesystem \<Rightarrow> File \<Rightarrow> nat \<Rightarrow> error + status" where
  "node_get_status 0 git fs f self = Inl RecursionError"
| "node_get_status (Suc depth) git fs f self =
     (if \<not> isfile fs (file_path f) then Inr Missing
      else
        let symlink = (case os_readlink fs (file_path f) of Inl e \<Rightarrow> None | Inr t \<Rightarrow> Some t)
        in if symlink \<noteq> None
              \<and> normpath (the symlink) = normpath (node_path (file_nodes f ! self))
           then Inr Symlinked
           else (case fst (git_diff git fs (node_path (file_nodes f ! self)) (file_path f)) of
                   Inl e \<Rightarrow> Inl e
                 | Inr True \<Rightarrow> Inr Identical
                 | Inr False \<Rightarrow>
                     sibling_scan (node_get_status depth git fs f) self [0..<length (file_nodes f)]))"

text \<open>
  The commands change the disk and start hook programs. The state they work on is the
  disk and the list of hooks started so far (\<^verbatim>\<open>subprocess.call\<close>, oldest first; a hook
  is taken to start, and what it does itself is outside the program). A command returns
  or raises, and the state
  it leaves is kept in both cases. Progress lines printed on the console are not part of
  the state.
\<close>

record world =
  disk :: filesystem
  hook_calls :: "path list"

datatype outcome = Returned | Raised error

definition node_unmerge :: "nat \<Rightarrow> git_tool \<Rightarrow> world \<Rightarrow> File \<Rightarrow> nat \<Rightarrow> outcome \<times> world" where
  "node_unmerge depth git w f self =
     (case node_get_status depth git (disk w) f self of
        Inl e \<Rightarrow> (Raised e, w)
      | Inr status \<Rightarrow>
          if status \<notin> {Identical, Symlinked, Missing} then (Raised NotSupported, w)
          else if status = Missing then (Returned, w)
          else (case os_remove (file_path f) (disk w) of
                  Inl e \<Rightarrow> (Raised e, w)
                | Inr fs' \<Rightarrow> (Returned, w\<lparr>disk := fs'\<rparr>)))"

definition node_merge :: "nat \<Rightarrow> git_tool \<Rightarrow> world \<Rightarrow> File \<Rightarrow> nat \<Rightarrow> outcome \<times> world" where
  "node_merge depth git w f self =
     (case node_get_status depth git (disk w) f self of
        Inl e \<Rightarrow> (Raised e, w)
      | Inr status \<Rightarrow>
          if status \<notin> {Identical, Symlinked, Missing} then (Raised NotSupported, w)
          else if status = Symlinked then (Returned, w)
          else (case node_unmerge depth git w f self of
                  (Raised e, w1) \<Rightarrow> (Raised e, w1)
                | (Returned, w1) \<Rightarrow>
                    let w2 = (if status = Missing
                              then w1\<lparr>disk := os_makedirs (dirname (file_path f)) (disk w1)\<rparr>
                              else w1)
                    in (case os_symlink (node_path (file_nodes f ! self)) (file_path f) (disk w2) of
                          Inl e \<Rightarrow> (Raised e, w2)
                        | Inr fs' \<Rightarrow> (Returned, w2\<lparr>disk := fs'\<rparr>))))"

text \<open>\<open>confirm\<close> is the line \<^verbatim>\<open>input('Proceed? [Y/n]')\<close> returns.\<close>

definition node_force_out :: "nat \<Rightarrow> git_tool \<Rightarrow> world \<Rightarrow> File \<Rightarrow> nat \<Rightarrow> string \<Rightarrow> outcome \<times> world" where
  "node_force_out depth git w f self confirm =
     (case node_get_status depth git (disk w) f self of
        Inl e \<Rightarrow> (Raised e, w)
      | Inr status \<Rightarrow>
          if status \<noteq> Conflicted then (Raised NotSupported, w)
          else if confirm \<noteq> ''n'' \<and> confirm \<noteq> ''N'' \<and> confirm \<noteq> ''No'' \<and> confirm \<noteq> ''no''
          then (case os_remove (file_path f) (disk w) of
                  Inl e \<Rightarrow> (Raised e, w)
                | Inr fs' \<Rightarrow> node_merge depth git (w\<lparr>disk := fs'\<rparr>) f self)
          else (Returned, w))"

text \<open>A layer lists its nodes, each one a file and the node's position in that file.\<close>

record Layer =
  layer_name :: string
  layer_nodes :: "(File \<times> nat) list"
  merge_hooks :: "path list"
  unmerge_hooks :: "path list"

fun layer_scan :: "(File \<times> nat \<Rightarrow> error + status) \<Rightarrow> status \<Rightarrow> (File \<times> nat) list \<Rightarrow> error + status" where
  "layer_scan st status [] = Inr status"
| "layer_scan st status (f # fs) =
     (case st f of
        Inl e \<Rightarrow> Inl e
      | Inr s \<Rightarrow>
          if s = Missing then Inr Missing
          else if s = Conflicted then Inr Missing
          else if s = Owned then Inr Owned
          else if s = Symlinked then layer_scan st status fs
          else if s = Identical then layer_scan st Identical fs
          else Inl UnexpectedStatus)"

definition layer_get_status :: "nat \<Rightarrow> git_tool \<Rightarrow> filesystem \<Rightarrow> Layer \<Rightarrow> error + status" where
  "layer_get_status depth git fs l =
     layer_scan (\<lambda>(f, n). node_get_status depth git fs f n) Symlinked (layer_nodes l)"

fun merge_nodes :: "nat \<Rightarrow> git_tool \<Rightarrow> world \<Rightarrow> (File \<times> nat) list \<Rightarrow> outcome \<times> world" where
  "merge_nodes depth git w [] = (Returned, w)"
| "merge_nodes depth git w ((f, n) # ns) =
     (case node_merge depth git w f n of
        (Raised e, w1) \<Rightarrow> (Raised e, w1)
      | (Returned, w1) \<Rightarrow> merge_nodes depth git w1 ns)"

fun unmerge_nodes :: "nat \<Rightarrow> git_tool \<Rightarrow> world \<Rightarrow> (File \<times> nat) list \<Rightarrow> outcome \<times> world" where
  "unmerge_nodes depth git w [] = (Returned, w)"
| "unmerge_nodes depth git w ((f, n) # ns) =
     (case node_unmerge depth git w f n of
        (Raised e, w1) \<Rightarrow> (Raised e, w1)
      | (Returned, w1) \<Rightarrow> unmerge_nodes depth git w1 ns)"

definition layer_merge :: "nat \<Rightarrow> git_tool \<Rightarrow> world \<Rightarrow> Layer \<Rightarrow> outcome \<times> world" where
  "layer_merge depth git w l =
     (case layer_get_status depth git (disk w) l of
        Inl e \<Rightarrow> (Raised e, w)
      | Inr status \<Rightarrow>
          if status \<notin> {Identical, Symlinked, Missing} then (Raised NotSupported, w)
          else if status = Symlinked then (Returned, w)
          else (case merge_nodes depth git w (layer_nodes l) of
                  (Raised e, w1) \<Rightarrow> (Raised e, w1)
                | (Returned, w1) \<Rightarrow>
                    (Returned, w1\<lparr>hook_calls := hook_calls w1 @ merge_hooks l\<rparr>)))"

definition layer_unmerge :: "nat \<Rightarrow> git_tool \<Rightarrow> world \<Rightarrow> Layer \<Rightarrow> outcome \<times> world" where
  "layer_unmerge depth git w l =
     (case layer_get_status depth git (disk w) l of
        Inl e \<Rightarrow> (Raised e, w)
      | Inr status \<Rightarrow>
          if status \<notin> {Identical, Symlinked, Missing} then (Raised NotSupported, w)
          else if status = Missing then (Returned, w)
          else unmerge_nodes depth git w (layer_nodes l))"

section \<open>What a status says about the disk\<close>

text \<open>The target is a link whose normalised text is the node's normalised source path.\<close>

definition linked :: "filesystem \<Rightarrow> File \<Rightarrow> nat \<Rightarrow> bool" where
  "linked fs f n =
     (case fs (file_path f) of
        Some (Symlink t) \<Rightarrow> normpath t = normpath (node_path (file_nodes f ! n))
      | _ \<Rightarrow> False)"

text \<open>
  The target is a file, not linked to the node's source, and \<^verbatim>\<open>git_diff\<close> answers
  \<^verbatim>\<open>False\<close>: the node reaches the loop over its siblings.
\<close>

definition unclaimed :: "git_tool \<Rightarrow> filesystem \<Rightarrow> File \<Rightarrow> nat \<Rightarrow> bool" where
  "unclaimed git fs f n =
     (isfile fs (file_path f) \<and> \<not> linked fs f n
      \<and> fst (git_diff git fs (node_path (file_nodes f ! n)) (file_path f)) = Inr False)"

text \<open>The paths \<^verbatim>\<open>os.stat\<close> looks at when it starts from \<open>p\<close>.\<close>

fun visited :: "nat \<Rightarrow> filesystem \<Rightarrow> path \<Rightarrow> path list" where
  "visited 0 fs p = [p]"
| "visited (Suc k) fs p = p # (case fs p of Some (Symlink t) \<Rightarrow> visited k fs t | _ \<Rightarrow> [])"

text \<open>The target and the source of a node of a layer, and a node that is linked in.\<close>

definition node_target :: "File \<times> nat \<Rightarrow> path" where
  "node_target x = file_path (fst x)"

definition node_source :: "File \<times> nat \<Rightarrow> path" where
  "node_source x = node_path (file_nodes (fst x) ! snd x)"

definition settled :: "filesystem \<Rightarrow> File \<times> nat \<Rightarrow> bool" where
  "settled fs x = (isfile fs (node_target x) \<and> linked fs (fst x) (snd x))"

section \<open>A sample installation\<close>

text \<open>
  A comparison program for the examples: on two regular files it prints nothing exactly
  when their bytes are equal; a path that does not exist gives a message on standard
  error only; a link or a directory on one side is reported as a difference.
\<close>

definition git_plain :: git_tool where
  "git_plain fs a b =
     (case (fs a, fs b) of
        (Some (Regular x), Some (Regular y)) \<Rightarrow> Printed (if x = y then [] else ''diff --git'')
      | (None, _) \<Rightarrow> Printed []
      | (_, None) \<Rightarrow> Printed []
      | _ \<Rightarrow> Printed ''diff --git'')"

text \<open>A program that cannot be started: \<^verbatim>\<open>git\<close> is not installed.\<close>

definition git_absent :: git_tool where
  "git_absent fs a b = Spawn_failed"

text \<open>\<^verbatim>\<open>~/.vimrc\<close>, supplied by the layers \<^verbatim>\<open>base\<close> and \<^verbatim>\<open>work\<close>.\<close>

definition vimrc :: File where
  "vimrc = \<lparr>file_rel_path = ''.vimrc'', file_path = ''/home/u/.vimrc'',
     file_nodes = [\<lparr>node_layer = ''base'', node_path = ''/dot/base/home/.vimrc''\<rparr>,
                   \<lparr>node_layer = ''work'', node_path = ''/dot/work/home/.vimrc''\<rparr>]\<rparr>"

text \<open>Both layers hold the same bytes as the plain file at the target.\<close>

definition disk_same :: filesystem where
  "disk_same = [''/dot/base/home/.vimrc'' \<mapsto> Regular ''set nu'',
                ''/dot/work/home/.vimrc'' \<mapsto> Regular ''set nu'',
                ''/home/u/.vimrc'' \<mapsto> Regular ''set nu'']"

text \<open>The target was edited by hand and differs from both layers.\<close>

definition disk_edited :: filesystem where
  "disk_edited = [''/dot/base/home/.vimrc'' \<mapsto> Regular ''set nu'',
                  ''/dot/work/home/.vimrc'' \<mapsto> Regular ''syntax on'',
                  ''/home/u/.vimrc'' \<mapsto> Regular ''set nonu'']"

text \<open>\<^verbatim>\<open>~/.profile\<close>, supplied by three layers; the target equals the third one's file.\<close>

definition profile :: File where
  "profile = \<lparr>file_rel_path = ''.profile'', file_path = ''/home/u/.profile'',
     file_nodes = [\<lparr>node_layer = ''base'', node_path = ''/dot/base/home/.profile''\<rparr>,
                   \<lparr>node_layer = ''work'', node_path = ''/dot/work/home/.profile''\<rparr>,
                   \<lparr>node_layer = ''mail'', node_path = ''/dot/mail/home/.profile''\<rparr>]\<rparr>"

definition disk_third :: filesystem where
  "disk_third = [''/dot/base/home/.profile'' \<mapsto> Regular ''umask 022'',
                 ''/dot/work/home/.profile'' \<mapsto> Regular ''umask 077'',
                 ''/dot/mail/home/.profile'' \<mapsto> Regular ''export MAIL'',
                 ''/home/u/.profile'' \<mapsto> Regular ''export MAIL'']"

text \<open>
  The home directory of the examples: \<^verbatim>\<open>~/.vimrc\<close> is linked into \<^verbatim>\<open>base\<close>, the layer
  \<^verbatim>\<open>work\<close> alone supplies \<^verbatim>\<open>~/.tmux.conf\<close> (not there yet), \<^verbatim>\<open>~/.gitconfig\<close> (edited
  by hand) and \<^verbatim>\<open>~/.inputrc\<close> (a plain copy of the layer's file).
\<close>

definition tmux :: File where
  "tmux = \<lparr>file_rel_path = ''.tmux.conf'', file_path = ''/home/u/.tmux.conf'',
     file_nodes = [\<lparr>node_layer = ''work'', node_path = ''/dot/work/home/.tmux.conf''\<rparr>]\<rparr>"

definition gitconfig :: File where
  "gitconfig = \<lparr>file_rel_path = ''.gitconfig'', file_path = ''/home/u/.gitconfig'',
     file_nodes = [\<lparr>node_layer = ''work'', node_path = ''/dot/work/home/.gitconfig''\<rparr>]\<rparr>"

definition inputrc :: File where
  "inputrc = \<lparr>file_rel_path = ''.inputrc'', file_path = ''/home/u/.inputrc'',
     file_nodes = [\<lparr>node_layer = ''work'', node_path = ''/dot/work/home/.inputrc''\<rparr>]\<rparr>"

definition disk_home :: filesystem where
  "disk_home = [''/dot/base/home/.vimrc'' \<mapsto> Regular ''set nu'',
                ''/dot/work/home/.vimrc'' \<mapsto> Regular ''syntax on'',
                ''/home/u/.vimrc'' \<mapsto> Symlink ''/dot/base/home/.vimrc'',
                ''/dot/work/home/.tmux.conf'' \<mapsto> Regular ''set -g mouse on'',
                ''/dot/work/home/.gitconfig'' \<mapsto> Regular ''[user]'',
                ''/home/u/.gitconfig'' \<mapsto> Regular ''[core]'',
                ''/dot/work/home/.inputrc'' \<mapsto> Regular ''set bell-style none'',
                ''/home/u/.inputrc'' \<mapsto> Regular ''set bell-style none'']"

definition home :: world where
  "home = \<lparr>disk = disk_home, hook_calls = []\<rparr>"

text \<open>The same home directory once \<^verbatim>\<open>~/.tmux.conf\<close> is linked into \<^verbatim>\<open>work\<close>.\<close>

definition home_tmux :: world where
  "home_tmux = home\<lparr>disk := (disk home)(''/home/u/.tmux.conf'' \<mapsto>
                                Symlink ''/dot/work/home/.tmux.conf'')\<rparr>"

text \<open>
  And once \<^verbatim>\<open>~/.tmux.conf\<close> and \<^verbatim>\<open>~/.inputrc\<close> are linked and the merge hook of
  \<^verbatim>\<open>work\<close> has run.
\<close>

definition home_merged :: world where
  "home_merged =
     \<lparr>disk = (disk home)(''/home/u/.tmux.conf'' \<mapsto> Symlink ''/dot/work/home/.tmux.conf'',
                         ''/home/u/.inputrc'' \<mapsto> Symlink ''/dot/work/home/.inputrc''),
      hook_calls = [''/dot/work/merge/reload'']\<rparr>"

text \<open>The layer \<^verbatim>\<open>work\<close> with a given list of nodes.\<close>

definition work :: "(File \<times> nat) list \<Rightarrow> Layer" where
  "work ns = \<lparr>layer_name = ''work'', layer_nodes = ns,
     merge_hooks = [''/dot/work/merge/reload''], unmerge_hooks = []\<rparr>"

text \<open>
  A home directory where \<^verbatim>\<open>~/.tmux.conf\<close> is a link left behind by an earlier
  installation: the file it points to is gone.
\<close>

definition disk_stale :: filesystem where
  "disk_stale = [''/dot/work/home/.tmux.conf'' \<mapsto> Regular ''set -g mouse on'',
                 ''/home/u/.tmux.conf'' \<mapsto> Symlink ''/old/dot/tmux.conf'']"

definition stale :: world where
  "stale = \<lparr>disk = disk_stale, hook_calls = []\<rparr>"

text \<open>
  A layer file that is itself a link to a file that is gone: \<^verbatim>\<open>os.walk\<close> lists it among
  the files of the layer, so \<^verbatim>\<open>Layer.__init__\<close> makes a node for it. Nothing is at the
  target \<^verbatim>\<open>~/.screenrc\<close> yet.
\<close>

definition screenrc :: File where
  "screenrc = \<lparr>file_rel_path = ''.screenrc'', file_path = ''/home/u/.screenrc'',
     file_nodes = [\<lparr>node_layer = ''work'', node_path = ''/dot/work/home/.screenrc''\<rparr>]\<rparr>"

definition dangling :: world where
  "dangling = \<lparr>disk = [''/dot/work/home/.screenrc'' \<mapsto> Symlink ''/opt/shared/screenrc''],
                hook_calls = []\<rparr>"

text \<open>The same once \<^verbatim>\<open>~/.screenrc\<close> is linked to the layer's file.\<close>

definition dangling_linked :: world where
  "dangling_linked =
     dangling\<lparr>disk := (disk dangling)(''/home/u/.screenrc'' \<mapsto>
                                   Symlink ''/dot/work/home/.screenrc'')\<rparr>"

section \<open>Node status\<close>

lemma isfile_entry: "isfile fs p \<Longrightarrow> (\<exists>c. fs p = Some (Regular c)) \<or> (\<exists>t. fs p = Some (Symlink t))"
  by (cases "fs p") (auto simp: isfile_def SYMLOOP_MAX_def eval_nat_numeral split: entry.splits option.splits)

lemma isfile_regular: "fs p = Some (Regular c) \<Longrightarrow> isfile fs p"
  by (simp add: isfile_def SYMLOOP_MAX_def eval_nat_numeral)

lemma node_get_status_Suc:
  "node_get_status (Suc depth) git fs f n =
     (if \<not> isfile fs (file_path f) then Inr Missing
      else if linked fs f n then Inr Symlinked
      else (case fst (git_diff git fs (node_path (file_nodes f ! n)) (file_path f)) of
              Inl e \<Rightarrow> Inl e
            | Inr True \<Rightarrow> Inr Identical
            | Inr False \<Rightarrow> sibling_scan (node_get_status depth git fs f) n [0..<length (file_nodes f)]))"
proof (cases "fs (file_path f)")
  case None
  then show ?thesis by (simp add: linked_def os_readlink_def)
next
  case (Some e)
  then show ?thesis by (cases e) (simp_all add: linked_def os_readlink_def)
qed

declare node_get_status.simps(2) [simp del]

lemma sibling_scan_cases:
  "sibling_scan st n ns = Inr s \<Longrightarrow> s = Owned \<or> s = Conflicted"
  by (induction ns) (auto split: if_splits sum.splits)

lemma sibling_scan_Owned:
  "sibling_scan st n ns = Inr Owned \<Longrightarrow>
   \<exists>m \<in> set ns. m \<noteq> n \<and> (st m = Inr Symlinked \<or> st m = Inr Identical)"
  by (induction ns) (auto split: if_splits sum.splits)

lemma Symlinked_iff:
  "node_get_status (Suc depth) git fs f n = Inr Symlinked \<longleftrightarrow> isfile fs (file_path f) \<and> linked fs f n"
  by (auto simp: node_get_status_Suc split: sum.splits bool.splits dest: sibling_scan_cases)

lemma Identical_iff:
  "node_get_status (Suc depth) git fs f n = Inr Identical \<longleftrightarrow>
     isfile fs (file_path f) \<and> \<not> linked fs f n
     \<and> fst (git_diff git fs (node_path (file_nodes f ! n)) (file_path f)) = Inr True"
  by (auto simp: node_get_status_Suc split: sum.splits bool.splits dest: sibling_scan_cases)

lemma Missing_iff:
  "node_get_status (Suc depth) git fs f n = Inr Missing \<longleftrightarrow> \<not> isfile fs (file_path f)"
  by (auto simp: node_get_status_Suc split: sum.splits bool.splits dest: sibling_scan_cases)

lemma unclaimed_status:
  "unclaimed git fs f n \<Longrightarrow>
   node_get_status (Suc depth) git fs f n =
     sibling_scan (node_get_status depth git fs f) n [0..<length (file_nodes f)]"
  by (simp add: node_get_status_Suc unclaimed_def)

lemma upt_two: "2 \<le> n \<Longrightarrow> [0..<n] = 0 # Suc 0 # [2..<n]"
proof -
  assume n: "2 \<le> n"
  then have "[0..<n] = 0 # [Suc 0..<n]" by (intro upt_conv_Cons) simp
  also from n have "[Suc 0..<n] = Suc 0 # [Suc (Suc 0)..<n]" by (intro upt_conv_Cons) simp
  finally show ?thesis by (simp add: numeral_2_eq_2)
qed

lemma first_two_unclaimed:
  assumes "2 \<le> length (file_nodes f)" "unclaimed git fs f 0" "unclaimed git fs f (Suc 0)"
  shows "node_get_status depth git fs f 0 = Inl RecursionError
       \<and> node_get_status depth git fs f (Suc 0) = Inl RecursionError"
proof (induction depth)
  case 0
  show ?case by simp
next
  case (Suc depth)
  from assms(1) have upt: "[0..<length (file_nodes f)] = 0 # Suc 0 # [2..<length (file_nodes f)]"
    by (rule upt_two)
  show ?case
    using Suc assms(2,3) by (simp add: unclaimed_status upt)
qed

lemma unclaimed_never_returns:
  assumes "2 \<le> length (file_nodes f)" "unclaimed git fs f 0" "unclaimed git fs f (Suc 0)"
    and "unclaimed git fs f n"
  shows "node_get_status depth git fs f n = Inl RecursionError"
proof (cases depth)
  case 0
  then show ?thesis by simp
next
  case (Suc d)
  from assms(1) have upt: "[0..<length (file_nodes f)] = 0 # Suc 0 # [2..<length (file_nodes f)]"
    by (rule upt_two)
  from first_two_unclaimed[OF assms(1-3), of d]
  show ?thesis using assms(4) Suc
    by (simp add: unclaimed_status upt)
qed

lemma Owned_sibling:
  assumes "node_get_status depth git fs f n = Inr Owned"
  shows "\<exists>m < length (file_nodes f). m \<noteq> n \<and>
           (node_get_status depth git fs f m = Inr Symlinked
            \<or> node_get_status depth git fs f m = Inr Identical)"
proof (cases depth)
  case 0
  with assms show ?thesis by simp
next
  case (Suc d)
  with assms have "sibling_scan (node_get_status d git fs f) n [0..<length (file_nodes f)] = Inr Owned"
    by (auto simp: node_get_status_Suc split: if_splits sum.splits bool.splits)
  then obtain m where m: "m < length (file_nodes f)" "m \<noteq> n"
      "node_get_status d git fs f m = Inr Symlinked \<or> node_get_status d git fs f m = Inr Identical"
    by (auto dest!: sibling_scan_Owned)
  then obtain d' where d: "d = Suc d'" by (cases d) auto
  from m(3) have "node_get_status (Suc d) git fs f m = Inr Symlinked
      \<or> node_get_status (Suc d) git fs f m = Inr Identical"
    unfolding d Symlinked_iff Identical_iff .
  with m(1,2) Suc show ?thesis by blast
qed

lemma Owned_unclaimed:
  "node_get_status depth git fs f n = Inr Owned \<Longrightarrow> unclaimed git fs f n"
  by (cases depth) (auto simp: node_get_status_Suc unclaimed_def split: if_splits sum.splits bool.splits)

lemma Symlinked_linked:
  "node_get_status depth git fs f n = Inr Symlinked \<Longrightarrow> linked fs f n"
  by (cases depth) (auto simp: Symlinked_iff)

lemma linked_same_source:
  "linked fs f n \<Longrightarrow> linked fs f m \<Longrightarrow>
   normpath (node_path (file_nodes f ! n)) = normpath (node_path (file_nodes f ! m))"
  by (auto simp: linked_def split: option.splits entry.splits)

lemma sibling_scan_Conflicted:
  "sibling_scan st n ns = Inr Conflicted \<Longrightarrow>
   \<forall>m\<in>set ns. m \<noteq> n \<longrightarrow> (\<exists>s. st m = Inr s \<and> s \<noteq> Identical \<and> s \<noteq> Symlinked)"
  by (induction ns) (auto split: if_splits sum.splits)

lemma claim_depth:
  "node_get_status (Suc d) git fs f n = Inr Symlinked \<longleftrightarrow>
     node_get_status (Suc d') git fs f n = Inr Symlinked"
  "node_get_status (Suc d) git fs f n = Inr Identical \<longleftrightarrow>
     node_get_status (Suc d') git fs f n = Inr Identical"
  by (simp_all add: Symlinked_iff Identical_iff)

text \<open>
  Whenever \<^verbatim>\<open>get_status\<close> returns a status, it is the one the ordered decision of its
  docstrings gives.
\<close>

lemma status_decision:
  assumes "node_get_status depth git fs f n = Inr s"
  shows "s = (if \<not> isfile fs (file_path f) then Missing
              else if linked fs f n then Symlinked
              else if fst (git_diff git fs (node_path (file_nodes f ! n)) (file_path f)) = Inr True
              then Identical
              else if \<exists>m < length (file_nodes f). m \<noteq> n
                        \<and> (node_get_status depth git fs f m = Inr Symlinked
                             \<or> node_get_status depth git fs f m = Inr Identical)
              then Owned else Conflicted)"
proof -
  from assms obtain d where d: "depth = Suc d" by (cases depth) auto
  show ?thesis
  proof (cases "unclaimed git fs f n")
    case False
    with assms show ?thesis
      unfolding d by (auto simp: node_get_status_Suc unclaimed_def split: if_splits sum.splits bool.splits)
  next
    case True
    with assms have scan:
      "sibling_scan (node_get_status d git fs f) n [0..<length (file_nodes f)] = Inr s"
      unfolding d by (simp add: unclaimed_status)
    then have "s = Owned \<or> s = Conflicted" by (rule sibling_scan_cases)
    then have "s = (if \<exists>m < length (file_nodes f). m \<noteq> n
                        \<and> (node_get_status depth git fs f m = Inr Symlinked
                             \<or> node_get_status depth git fs f m = Inr Identical)
                   then Owned else Conflicted)"
    proof
      assume "s = Owned"
      with assms Owned_sibling[of depth git fs f n] show ?thesis by simp
    next
      assume c: "s = Conflicted"
      have "\<not> (node_get_status depth git fs f m = Inr Symlinked
                \<or> node_get_status depth git fs f m = Inr Identical)"
        if "m < length (file_nodes f)" "m \<noteq> n" for m
      proof -
        from sibling_scan_Conflicted[OF scan[unfolded c]] that
        obtain s' where s': "node_get_status d git fs f m = Inr s'"
          "s' \<noteq> Identical" "s' \<noteq> Symlinked" by auto
        then obtain d' where "d = Suc d'" by (cases d) auto
        with s' show ?thesis unfolding d using claim_depth[of "Suc d'" git fs f m d'] by auto
      qed
      with c show ?thesis by auto
    qed
    with True show ?thesis by (simp add: unclaimed_def)
  qed
qed

text \<open>
  And \<open>Conflicted\<close> is returned for a file with a single node only: with a sibling, the
  call either finds a claim or does not return.
\<close>

lemma Conflicted_alone:
  "node_get_status depth git fs f n = Inr Conflicted \<Longrightarrow>
   n < length (file_nodes f) \<Longrightarrow> m < length (file_nodes f) \<Longrightarrow> m = n"
proof (induction depth arbitrary: n m)
  case 0
  then show ?case by simp
next
  case (Suc d)
  show ?case
  proof (rule ccontr)
    assume ne: "m \<noteq> n"
    from Suc.prems(1) have u: "unclaimed git fs f n"
      by (auto simp: node_get_status_Suc unclaimed_def split: if_splits sum.splits bool.splits)
    with Suc.prems(1) have scan:
      "sibling_scan (node_get_status d git fs f) n [0..<length (file_nodes f)] = Inr Conflicted"
      by (simp add: unclaimed_status)
    note others = sibling_scan_Conflicted[OF scan]
    from others Suc.prems(3) ne obtain s where s: "node_get_status d git fs f m = Inr s"
      "s \<noteq> Identical" "s \<noteq> Symlinked" by auto
    then obtain d' where d': "d = Suc d'" by (cases d) auto
    from u have "isfile fs (file_path f)" by (simp add: unclaimed_def)
    with s(1) have "s \<noteq> Missing" unfolding d' by (auto simp: Missing_iff)
    with s(2,3) have "s = Conflicted \<or> s = Owned" by (cases s) auto
    then show False
    proof
      assume "s = Conflicted"
      with s(1) Suc.IH[of m n] Suc.prems(2,3) ne show False by simp
    next
      assume "s = Owned"
      with s(1) Owned_sibling[of d git fs f m] obtain k where k: "k < length (file_nodes f)"
        "node_get_status d git fs f k = Inr Symlinked \<or> node_get_status d git fs f k = Inr Identical"
        by auto
      have "k \<noteq> n"
      proof
        assume "k = n"
        with k(2) u show False
          unfolding d' by (auto simp: Symlinked_iff Identical_iff unclaimed_def)
      qed
      with others k show False by auto
    qed
  qed
qed

subsection \<open>Claims of siblings\<close>

text \<open>
  C1, as stated, fails: when two layers hold the same bytes as a plain file at the
  target, both nodes report \<open>Identical\<close>. Equality of content is tested before the
  siblings are looked at, and nothing demotes the second node.
\<close>

theorem two_identical_siblings:
  "node_get_status 1000 git_plain disk_same vimrc 0 = Inr Identical
   \<and> node_get_status 1000 git_plain disk_same vimrc 1 = Inr Identical"
proof -
  have d: "(1000::nat) = Suc 999" by simp
  have f: "isfile disk_same (file_path vimrc)"
    by (simp add: isfile_def SYMLOOP_MAX_def disk_same_def vimrc_def eval_nat_numeral)
  have l: "\<not> linked disk_same vimrc n" for n
    by (simp add: linked_def disk_same_def vimrc_def)
  have g: "fst (git_diff git_plain disk_same (node_path (file_nodes vimrc ! n)) (file_path vimrc)) = Inr True"
    if "n < 2" for n
    using that by (cases n) (simp_all add: git_diff_def git_plain_def disk_same_def vimrc_def strip_def)
  show ?thesis unfolding d Identical_iff using f l g by simp
qed

text \<open>
  C1, amended. Two siblings with different normalised source paths never both report
  \<open>Symlinked\<close>. A node reports \<open>Owned\<close> only when it has no claim of its own (the
  target is a file, not linked to its source, and not equal to it) and some sibling
  reports \<open>Symlinked\<close> or \<open>Identical\<close>; and a node without a claim of its own that
  returns a status while some sibling reports \<open>Symlinked\<close> or \<open>Identical\<close> reports
  \<open>Owned\<close>. Nothing is said of how many siblings report \<open>Identical\<close>.
\<close>

theorem sibling_claims:
  "(normpath (node_path (file_nodes f ! n)) \<noteq> normpath (node_path (file_nodes f ! m))
      \<and> node_get_status depth git fs f n = Inr Symlinked
      \<longrightarrow> node_get_status depth git fs f m \<noteq> Inr Symlinked)
   \<and> (node_get_status depth git fs f n = Inr Owned
      \<longrightarrow> unclaimed git fs f n
          \<and> (\<exists>k < length (file_nodes f). k \<noteq> n \<and>
                (node_get_status depth git fs f k = Inr Symlinked
                 \<or> node_get_status depth git fs f k = Inr Identical)))
   \<and> (unclaimed git fs f n \<and> node_get_status depth git fs f n = Inr s
        \<and> (\<exists>k < length (file_nodes f). k \<noteq> n \<and>
              (node_get_status depth git fs f k = Inr Symlinked
               \<or> node_get_status depth git fs f k = Inr Identical))
      \<longrightarrow> s = Owned)"
proof (intro conjI impI)
  assume a: "normpath (node_path (file_nodes f ! n)) \<noteq> normpath (node_path (file_nodes f ! m))
      \<and> node_get_status depth git fs f n = Inr Symlinked"
  show "node_get_status depth git fs f m \<noteq> Inr Symlinked"
  proof
    assume "node_get_status depth git fs f m = Inr Symlinked"
    then have "linked fs f m" by (rule Symlinked_linked)
    moreover from a have "linked fs f n" by (auto dest: Symlinked_linked)
    ultimately show False using a linked_same_source by blast
  qed
next
  assume "node_get_status depth git fs f n = Inr Owned"
  then show "unclaimed git fs f n" by (rule Owned_unclaimed)
next
  assume "node_get_status depth git fs f n = Inr Owned"
  then show "\<exists>k < length (file_nodes f). k \<noteq> n \<and>
                (node_get_status depth git fs f k = Inr Symlinked
                 \<or> node_get_status depth git fs f k = Inr Identical)"
    by (rule Owned_sibling)
next
  assume a: "unclaimed git fs f n \<and> node_get_status depth git fs f n = Inr s
        \<and> (\<exists>k < length (file_nodes f). k \<noteq> n \<and>
              (node_get_status depth git fs f k = Inr Symlinked
               \<or> node_get_status depth git fs f k = Inr Identical))"
  then have "node_get_status depth git fs f n = Inr s" by simp
  from status_decision[OF this] a show "s = Owned"
    by (simp add: unclaimed_def)
qed

lemma vimrc_linked_status:
  "node_get_status (Suc (Suc depth)) git_plain disk_home vimrc 0 = Inr Symlinked"
  "node_get_status (Suc (Suc depth)) git_plain disk_home vimrc 1 = Inr Owned"
proof -
  have f: "isfile disk_home (file_path vimrc)"
    by (simp add: isfile_def SYMLOOP_MAX_def disk_home_def vimrc_def eval_nat_numeral)
  have l0: "linked disk_home vimrc 0"
    by (simp add: linked_def disk_home_def vimrc_def)
  show s0: "node_get_status (Suc (Suc depth)) git_plain disk_home vimrc 0 = Inr Symlinked" for depth
    using f l0 by (simp add: Symlinked_iff)
  have l1: "\<not> linked disk_home vimrc 1"
    by (simp add: linked_def disk_home_def vimrc_def normpath_def slash_def)
  have g: "fst (git_diff git_plain disk_home (node_path (file_nodes vimrc ! 1)) (file_path vimrc)) = Inr False"
    by (simp add: git_diff_def git_plain_def disk_home_def vimrc_def strip_def is_space_def)
  have n: "length (file_nodes vimrc) = 2" by (simp add: vimrc_def)
  have s0': "node_get_status (Suc depth) git_plain disk_home vimrc 0 = Inr Symlinked"
    using f l0 by (simp add: Symlinked_iff)
  show "node_get_status (Suc (Suc depth)) git_plain disk_home vimrc 1 = Inr Owned"
    using f l1 g s0' by (simp add: node_get_status_Suc[of "Suc depth"] n upt_two)
qed

text \<open>
  C1, witness: \<^verbatim>\<open>~/.vimrc\<close> is linked into \<^verbatim>\<open>base\<close>; the node of \<^verbatim>\<open>base\<close> is
  \<open>Symlinked\<close> and the node of \<^verbatim>\<open>work\<close> is \<open>Owned\<close>.
\<close>

theorem sibling_claims_witness:
  "normpath (node_path (file_nodes vimrc ! 0)) \<noteq> normpath (node_path (file_nodes vimrc ! 1))
   \<and> node_get_status 1000 git_plain disk_home vimrc 0 = Inr Symlinked
   \<and> node_get_status 1000 git_plain disk_home vimrc 1 = Inr Owned
   \<and> node_get_status 1000 git_plain disk_home vimrc 1 \<noteq> Inr Symlinked
   \<and> unclaimed git_plain disk_home vimrc 1
   \<and> (\<exists>k < length (file_nodes vimrc). k \<noteq> 1 \<and>
         (node_get_status 1000 git_plain disk_home vimrc k = Inr Symlinked
          \<or> node_get_status 1000 git_plain disk_home vimrc k = Inr Identical))"
proof -
  have d: "(1000::nat) = Suc (Suc 998)" by simp
  have p: "normpath (node_path (file_nodes vimrc ! 0)) \<noteq> normpath (node_path (file_nodes vimrc ! 1))"
    by (simp add: vimrc_def normpath_def slash_def)
  have s: "node_get_status 1000 git_plain disk_home vimrc 0 = Inr Symlinked"
    "node_get_status 1000 git_plain disk_home vimrc 1 = Inr Owned"
    unfolding d by (rule vimrc_linked_status)+
  from sibling_claims[where f=vimrc and n=0 and m=1 and depth=1000 and git=git_plain
                         and fs=disk_home and s=Symlinked]
       sibling_claims[where f=vimrc and n=1 and m=0 and depth=1000 and git=git_plain
                         and fs=disk_home and s=Owned] p s
  show ?thesis by simp
qed

subsection \<open>The recursion into the siblings\<close>

text \<open>
  C2 says that \<^verbatim>\<open>get_status\<close> terminates when a file is shared by two layers and the
  target differs from every layer's source. It does not: each of the two nodes asks the
  other one, which asks back, and no recursion limit is large enough for a status to be
  returned. Python ends the call with \<^verbatim>\<open>RecursionError\<close>.
\<close>

theorem shared_edited_never_returns:
  "node_get_status depth git_plain disk_edited vimrc 0 = Inl RecursionError
   \<and> node_get_status depth git_plain disk_edited vimrc 1 = Inl RecursionError"
proof -
  have u: "unclaimed git_plain disk_edited vimrc n" if "n < 2" for n
    using that
    by (cases n) (simp_all add: unclaimed_def isfile_def SYMLOOP_MAX_def eval_nat_numeral linked_def
        git_diff_def git_plain_def disk_edited_def vimrc_def strip_def is_space_def)
  have "2 \<le> length (file_nodes vimrc)" by (simp add: vimrc_def)
  from first_two_unclaimed[OF this] u show ?thesis by simp
qed

text \<open>
  C3 says that a node which is neither missing, linked nor identical is \<open>Owned\<close> when a
  sibling is \<open>Symlinked\<close> or \<open>Identical\<close>. With three layers, the third of which is
  \<open>Identical\<close>, the first node never gets to ask the third: it asks the second one
  first, which asks the first one back.
\<close>

theorem owned_step_never_returns:
  "node_get_status (Suc depth) git_plain disk_third profile 2 = Inr Identical
   \<and> node_get_status depth git_plain disk_third profile 0 = Inl RecursionError"
proof -
  have f: "isfile disk_third (file_path profile)"
    by (simp add: isfile_def SYMLOOP_MAX_def eval_nat_numeral disk_third_def profile_def)
  have l: "\<not> linked disk_third profile n" for n
    by (simp add: linked_def disk_third_def profile_def)
  have g2: "fst (git_diff git_plain disk_third (node_path (file_nodes profile ! 2)) (file_path profile)) = Inr True"
    by (simp add: git_diff_def git_plain_def disk_third_def profile_def strip_def)
  have u: "unclaimed git_plain disk_third profile n" if "n < 2" for n
    using that f l
    by (cases n) (simp_all add: unclaimed_def 
        git_diff_def git_plain_def disk_third_def profile_def strip_def is_space_def)
  have "2 \<le> length (file_nodes profile)" by (simp add: profile_def)
  from first_two_unclaimed[OF this] u f l g2 show ?thesis by (simp add: Identical_iff)
qed

subsection \<open>Statuses in the sample home directory\<close>

lemma thousand: "(1000::nat) = Suc (Suc 998)"
  by simp

lemma solo_unclaimed_Conflicted:
  "length (file_nodes f) = 1 \<Longrightarrow> unclaimed git fs f 0 \<Longrightarrow>
   node_get_status (Suc depth) git fs f 0 = Inr Conflicted"
  by (simp add: unclaimed_status)

lemma tmux_Missing: "node_get_status (Suc depth) git_plain disk_home tmux 0 = Inr Missing"
  by (simp add: Missing_iff isfile_def SYMLOOP_MAX_def eval_nat_numeral disk_home_def tmux_def)

lemma inputrc_Identical: "node_get_status (Suc depth) git_plain disk_home inputrc 0 = Inr Identical"
  by (simp add: Identical_iff isfile_def SYMLOOP_MAX_def eval_nat_numeral disk_home_def inputrc_def
      linked_def git_diff_def git_plain_def strip_def)

lemma gitconfig_Conflicted: "node_get_status (Suc depth) git_plain disk_home gitconfig 0 = Inr Conflicted"
  by (rule solo_unclaimed_Conflicted)
     (simp_all add: unclaimed_def isfile_def SYMLOOP_MAX_def eval_nat_numeral disk_home_def gitconfig_def
      linked_def git_diff_def git_plain_def strip_def is_space_def)

subsection \<open>The guard of merge and unmerge\<close>

text \<open>
  C4: a node whose status is \<open>Owned\<close> or \<open>Conflicted\<close>, and a layer whose status is
  \<open>Owned\<close> or \<open>Conflicted\<close>, refuses \<^verbatim>\<open>merge()\<close> and \<^verbatim>\<open>unmerge()\<close> with the exception
  \<^verbatim>\<open>Exception("Not supported")\<close>, and the state it leaves is the state it found.
\<close>

theorem unsupported_transition:
  "(node_get_status depth git (disk w) f n = Inr Owned
      \<or> node_get_status depth git (disk w) f n = Inr Conflicted
    \<longrightarrow> node_merge depth git w f n = (Raised NotSupported, w)
        \<and> node_unmerge depth git w f n = (Raised NotSupported, w))
   \<and> (layer_get_status depth git (disk w) l = Inr Owned
        \<or> layer_get_status depth git (disk w) l = Inr Conflicted
    \<longrightarrow> layer_merge depth git w l = (Raised NotSupported, w)
        \<and> layer_unmerge depth git w l = (Raised NotSupported, w))"
  by (auto simp: node_merge_def node_unmerge_def layer_merge_def layer_unmerge_def)

text \<open>
  C4, witness: the node of the hand-edited \<^verbatim>\<open>~/.gitconfig\<close> is \<open>Conflicted\<close>, and a layer
  that starts with the \<open>Owned\<close> node of \<^verbatim>\<open>~/.vimrc\<close> is \<open>Owned\<close>.
\<close>

theorem unsupported_transition_witness:
  "node_get_status 1000 git_plain (disk home) gitconfig 0 = Inr Conflicted
   \<and> node_merge 1000 git_plain home gitconfig 0 = (Raised NotSupported, home)
   \<and> node_unmerge 1000 git_plain home gitconfig 0 = (Raised NotSupported, home)
   \<and> layer_get_status 1000 git_plain (disk home) (work [(vimrc, 1), (tmux, 0)]) = Inr Owned
   \<and> layer_merge 1000 git_plain home (work [(vimrc, 1), (tmux, 0)]) = (Raised NotSupported, home)
   \<and> layer_unmerge 1000 git_plain home (work [(vimrc, 1), (tmux, 0)]) = (Raised NotSupported, home)"
proof -
  have "node_get_status 1000 git_plain disk_home gitconfig 0 = Inr Conflicted"
    unfolding thousand by (rule gitconfig_Conflicted)
  then have g: "node_get_status 1000 git_plain (disk home) gitconfig 0 = Inr Conflicted"
    by (simp add: home_def)
  have v: "node_get_status 1000 git_plain disk_home vimrc 1 = Inr Owned"
    unfolding thousand by (rule vimrc_linked_status)
  have l: "layer_get_status 1000 git_plain (disk home) (work [(vimrc, 1), (tmux, 0)]) = Inr Owned"
    using v by (simp add: layer_get_status_def work_def home_def)
  from unsupported_transition[of 1000 git_plain home gitconfig 0 "work [(vimrc, 1), (tmux, 0)]"] g l
  show ?thesis by simp
qed

subsection \<open>The status of a layer\<close>

lemma layer_scan_prefix:
  "\<forall>m\<in>set pre. st m = Inr Symlinked \<or> st m = Inr Identical \<Longrightarrow>
   layer_scan st acc (pre @ rest) =
     layer_scan st (if \<exists>m\<in>set pre. st m = Inr Identical then Identical else acc) rest"
  by (induction pre arbitrary: acc) auto

lemma layer_never_Conflicted: "layer_scan st acc ns = Inr Conflicted \<Longrightarrow> acc = Conflicted"
  by (induction ns arbitrary: acc) (auto split: sum.splits if_splits)

lemma layer_status_not_Conflicted: "layer_get_status depth git fs l \<noteq> Inr Conflicted"
  using layer_never_Conflicted[of _ Symlinked] by (force simp: layer_get_status_def)


text \<open>
  C8: \<^verbatim>\<open>Layer.get_status\<close> scans the nodes in order. When every node before a position
  is \<open>Symlinked\<close> or \<open>Identical\<close>: a \<open>Missing\<close> or \<open>Conflicted\<close> node at that position
  makes the layer \<open>Missing\<close>, an \<open>Owned\<close> node makes it \<open>Owned\<close>, and at the end of the
  list the layer is \<open>Identical\<close> if some node was, and \<open>Symlinked\<close> otherwise.
\<close>

theorem layer_status_scan:
  assumes "layer_nodes l = pre @ rest"
    and "\<forall>(f, n)\<in>set pre. node_get_status depth git fs f n = Inr Symlinked
                           \<or> node_get_status depth git fs f n = Inr Identical"
  shows "(rest = [] \<longrightarrow>
            layer_get_status depth git fs l =
              Inr (if \<exists>(f, n)\<in>set pre. node_get_status depth git fs f n = Inr Identical
                   then Identical else Symlinked))
       \<and> (\<forall>f n tl. rest = (f, n) # tl
              \<and> (node_get_status depth git fs f n = Inr Missing
                  \<or> node_get_status depth git fs f n = Inr Conflicted)
            \<longrightarrow> layer_get_status depth git fs l = Inr Missing)
       \<and> (\<forall>f n tl. rest = (f, n) # tl \<and> node_get_status depth git fs f n = Inr Owned
            \<longrightarrow> layer_get_status depth git fs l = Inr Owned)"
proof -
  let ?st = "\<lambda>(f, n). node_get_status depth git fs f n"
  from assms(2) have pre: "\<forall>m\<in>set pre. ?st m = Inr Symlinked \<or> ?st m = Inr Identical"
    by auto
  have scan: "layer_get_status depth git fs l =
      layer_scan ?st (if \<exists>m\<in>set pre. ?st m = Inr Identical then Identical else Symlinked) rest"
    unfolding layer_get_status_def assms(1) by (rule layer_scan_prefix[OF pre])
  have ex: "(\<exists>m\<in>set pre. ?st m = Inr Identical)
      \<longleftrightarrow> (\<exists>(f, n)\<in>set pre. node_get_status depth git fs f n = Inr Identical)"
    by force
  show ?thesis
    unfolding scan ex by auto
qed

text \<open>
  C8, witness: a layer with one \<open>Missing\<close> and one \<open>Identical\<close> node is \<open>Missing\<close> in
  either order; with an \<open>Owned\<close> node after an \<open>Identical\<close> one it is \<open>Owned\<close>; with an
  \<open>Identical\<close> node alone it is \<open>Identical\<close>.
\<close>

theorem layer_status_scan_witness:
  "node_get_status 1000 git_plain disk_home tmux 0 = Inr Missing
   \<and> node_get_status 1000 git_plain disk_home inputrc 0 = Inr Identical
   \<and> node_get_status 1000 git_plain disk_home vimrc 1 = Inr Owned
   \<and> layer_get_status 1000 git_plain disk_home (work [(tmux, 0), (inputrc, 0)]) = Inr Missing
   \<and> layer_get_status 1000 git_plain disk_home (work [(inputrc, 0), (tmux, 0)]) = Inr Missing
   \<and> layer_get_status 1000 git_plain disk_home (work [(inputrc, 0), (vimrc, 1)]) = Inr Owned
   \<and> layer_get_status 1000 git_plain disk_home (work [(inputrc, 0)]) = Inr Identical"
proof -
  have t: "node_get_status 1000 git_plain disk_home tmux 0 = Inr Missing"
    unfolding thousand by (rule tmux_Missing)
  have i: "node_get_status 1000 git_plain disk_home inputrc 0 = Inr Identical"
    unfolding thousand by (rule inputrc_Identical)
  have v: "node_get_status 1000 git_plain disk_home vimrc 1 = Inr Owned"
    unfolding thousand by (rule vimrc_linked_status)
  have pre: "\<forall>(f, n)\<in>set [(inputrc, 0)]. node_get_status 1000 git_plain disk_home f n = Inr Symlinked
                  \<or> node_get_status 1000 git_plain disk_home f n = Inr Identical"
    using i by simp
  have nil: "\<forall>(f, n)\<in>set []. node_get_status 1000 git_plain disk_home f n = Inr Symlinked
                  \<or> node_get_status 1000 git_plain disk_home f n = Inr Identical"
    by simp
  have a: "layer_get_status 1000 git_plain disk_home (work [(tmux, 0), (inputrc, 0)]) = Inr Missing"
    using layer_status_scan[of "work [(tmux, 0), (inputrc, 0)]" "[]" "[(tmux, 0), (inputrc, 0)]", OF _ nil] t
    by (simp add: work_def)
  have b: "layer_get_status 1000 git_plain disk_home (work [(inputrc, 0), (tmux, 0)]) = Inr Missing"
    using layer_status_scan[of "work [(inputrc, 0), (tmux, 0)]" "[(inputrc, 0)]" "[(tmux, 0)]", OF _ pre] t
    by (simp add: work_def)
  have c: "layer_get_status 1000 git_plain disk_home (work [(inputrc, 0), (vimrc, 1)]) = Inr Owned"
    using layer_status_scan[of "work [(inputrc, 0), (vimrc, 1)]" "[(inputrc, 0)]" "[(vimrc, 1)]", OF _ pre] v
    by (simp add: work_def)
  have d: "layer_get_status 1000 git_plain disk_home (work [(inputrc, 0)]) = Inr Identical"
    using layer_status_scan[of "work [(inputrc, 0)]" "[(inputrc, 0)]" "[]", OF _ pre] i
    by (simp add: work_def)
  from t i v a b c d show ?thesis by simp
qed

subsection \<open>The comparison of contents\<close>

text \<open>
  C7 says that \<^verbatim>\<open>git_diff\<close> never raises and answers \<^verbatim>\<open>False\<close> with a warning when the
  comparison cannot be run. When the program cannot be started, \<^verbatim>\<open>subprocess.Popen\<close>
  raises before the \<^verbatim>\<open>try\<close> block is entered: the exception reaches the caller and no
  warning is printed.
\<close>

theorem git_diff_raises_without_git:
  "git_diff git_absent fs file1 file2 = (Inl OSError, [])
   \<and> node_get_status (Suc depth) git_absent disk_same vimrc 0 = Inl OSError"
proof -
  have "isfile disk_same (file_path vimrc)"
    by (rule isfile_regular[where c="''set nu''"]) (simp add: disk_same_def vimrc_def)
  moreover have "\<not> linked disk_same vimrc 0"
    by (simp add: linked_def disk_same_def vimrc_def)
  ultimately show ?thesis
    by (simp add: node_get_status_Suc git_diff_def git_absent_def)
qed

text \<open>
  Once the program runs, \<^verbatim>\<open>git_diff\<close> does not raise: a failure to read or decode
  the output gives \<^verbatim>\<open>False\<close> and the warning, and otherwise the answer is whether the
  standard output is blank.
\<close>

lemma git_diff_started:
  "git fs file1 file2 = Read_failed \<Longrightarrow>
     git_diff git fs file1 file2 = (Inr False, [''WARNING! Could not call git diff''])"
  "git fs file1 file2 = Printed out \<Longrightarrow>
     git_diff git fs file1 file2 = (Inr (strip out = []), [])"
  by (simp_all add: git_diff_def)

subsection \<open>What merge and unmerge do to the disk\<close>

lemma isfile_absent: "fs p = None \<Longrightarrow> \<not> isfile fs p"
  by (simp add: isfile_def SYMLOOP_MAX_def eval_nat_numeral)

lemma isfile_link_to_regular:
  "fs p = Some (Symlink q) \<Longrightarrow> fs q = Some (Regular c) \<Longrightarrow> isfile fs p"
  by (simp add: isfile_def SYMLOOP_MAX_def eval_nat_numeral)

lemma status_isfile:
  "node_get_status depth git fs f n = Inr s \<Longrightarrow> s \<noteq> Missing \<Longrightarrow> isfile fs (file_path f)"
  by (cases depth) (auto simp: node_get_status_Suc split: if_splits)

lemma status_Missing:
  "node_get_status depth git fs f n = Inr Missing \<Longrightarrow> \<not> isfile fs (file_path f)"
  by (cases depth) (auto simp: Missing_iff)

lemma os_remove_file: "isfile fs p \<Longrightarrow> os_remove p fs = Inr (fs(p := None))"
  by (auto simp: os_remove_def dest!: isfile_entry)

lemma node_unmerge_cases:
  "node_unmerge depth git w f n =
     (case node_get_status depth git (disk w) f n of
        Inl e \<Rightarrow> (Raised e, w)
      | Inr Missing \<Rightarrow> (Returned, w)
      | Inr Symlinked \<Rightarrow> (Returned, w\<lparr>disk := (disk w)(file_path f := None)\<rparr>)
      | Inr Identical \<Rightarrow> (Returned, w\<lparr>disk := (disk w)(file_path f := None)\<rparr>)
      | Inr _ \<Rightarrow> (Raised NotSupported, w))"
proof (cases "node_get_status depth git (disk w) f n")
  case (Inl e)
  then show ?thesis by (simp add: node_unmerge_def)
next
  case (Inr s)
  then show ?thesis
    by (cases s) (auto simp: node_unmerge_def os_remove_file dest: status_isfile)
qed

lemma node_merge_cases:
  "node_merge depth git w f n =
     (case node_get_status depth git (disk w) f n of
        Inl e \<Rightarrow> (Raised e, w)
      | Inr Symlinked \<Rightarrow> (Returned, w)
      | Inr Identical \<Rightarrow>
          (Returned, w\<lparr>disk := (disk w)(file_path f \<mapsto> Symlink (node_path (file_nodes f ! n)))\<rparr>)
      | Inr Missing \<Rightarrow>
          (if disk w (file_path f) = None
           then (Returned, w\<lparr>disk := (disk w)(file_path f \<mapsto> Symlink (node_path (file_nodes f ! n)))\<rparr>)
           else (Raised FileExistsError, w))
      | Inr _ \<Rightarrow> (Raised NotSupported, w))"
proof (cases "node_get_status depth git (disk w) f n")
  case (Inl e)
  then show ?thesis by (simp add: node_merge_def)
next
  case (Inr s)
  then show ?thesis
    by (cases s)
       (auto simp: node_merge_def node_unmerge_cases os_symlink_def os_makedirs_def
             split: option.splits)
qed

lemma node_merge_frame:
  assumes "node_merge depth git w f n = (r, w1)"
  shows "hook_calls w1 = hook_calls w" and "p \<noteq> file_path f \<Longrightarrow> disk w1 p = disk w p"
  using assms
  by (auto simp: node_merge_cases split: sum.splits status.splits if_splits)

lemma node_merge_linked:
  assumes "node_merge depth git w f n = (Returned, w1)"
  shows "linked (disk w1) f n"
  using assms
  by (auto simp: node_merge_cases linked_def split: sum.splits status.splits if_splits
           dest: Symlinked_linked)

lemma node_force_out_cases:
  "node_force_out depth git w f n confirm =
     (case node_get_status depth git (disk w) f n of
        Inl e \<Rightarrow> (Raised e, w)
      | Inr Conflicted \<Rightarrow>
          if confirm \<in> {''n'', ''N'', ''No'', ''no''} then (Returned, w)
          else (Returned, w\<lparr>disk := (disk w)(file_path f \<mapsto> Symlink (node_path (file_nodes f ! n)))\<rparr>)
      | Inr _ \<Rightarrow> (Raised NotSupported, w))"
proof (cases "node_get_status depth git (disk w) f n")
  case (Inl e)
  then show ?thesis by (simp add: node_force_out_def)
next
  case (Inr s)
  show ?thesis
  proof (cases "s = Conflicted")
    case False
    with Inr show ?thesis by (cases s) (simp_all add: node_force_out_def)
  next
    case True
    with Inr obtain d where d: "depth = Suc d" by (cases depth) auto
    from Inr True have isf: "isfile (disk w) (file_path f)" by (auto dest: status_isfile)
    let ?w = "w\<lparr>disk := (disk w)(file_path f := None)\<rparr>"
    have "node_get_status depth git (disk ?w) f n = Inr Missing"
      unfolding d by (simp add: Missing_iff isfile_absent)
    then have "node_merge depth git ?w f n =
        (Returned, w\<lparr>disk := (disk w)(file_path f \<mapsto> Symlink (node_path (file_nodes f ! n)))\<rparr>)"
      by (simp add: node_merge_cases)
    with Inr True isf show ?thesis
      by (simp add: node_force_out_def os_remove_file)
  qed
qed

subsection \<open>Forcing the layer's version out\<close>

text \<open>
  C9, as stated, fails: the negative answers are not recognised whatever their case.
  The answer \<^verbatim>\<open>NO\<close> is none of the four spellings the code compares with, so the
  hand-edited \<^verbatim>\<open>~/.gitconfig\<close> is deleted and replaced by the link.
\<close>

theorem force_out_uppercase_no:
  "node_get_status 1000 git_plain (disk home) gitconfig 0 = Inr Conflicted
   \<and> disk home ''/home/u/.gitconfig'' = Some (Regular ''[core]'')
   \<and> node_force_out 1000 git_plain home gitconfig 0 ''NO'' =
       (Returned, home\<lparr>disk := (disk home)(''/home/u/.gitconfig'' \<mapsto> Symlink ''/dot/work/home/.gitconfig'')\<rparr>)"
proof -
  have "node_get_status 1000 git_plain disk_home gitconfig 0 = Inr Conflicted"
    unfolding thousand by (rule gitconfig_Conflicted)
  then have g: "node_get_status 1000 git_plain (disk home) gitconfig 0 = Inr Conflicted"
    by (simp add: home_def)
  have d: "disk home ''/home/u/.gitconfig'' = Some (Regular ''[core]'')"
    by (simp add: home_def disk_home_def)
  have "node_force_out 1000 git_plain home gitconfig 0 ''NO'' =
      (Returned, home\<lparr>disk := (disk home)(file_path gitconfig \<mapsto>
          Symlink (node_path (file_nodes gitconfig ! 0)))\<rparr>)"
    using g by (simp add: node_force_out_cases)
  then show ?thesis using g d by (simp add: gitconfig_def)
qed

text \<open>
  C9, amended. \<^verbatim>\<open>force_out\<close> raises \<^verbatim>\<open>Exception("Not supported")\<close> from every status
  but \<open>Conflicted\<close>. From \<open>Conflicted\<close>, the answers \<^verbatim>\<open>n\<close>, \<^verbatim>\<open>N\<close>, \<^verbatim>\<open>No\<close> and \<^verbatim>\<open>no\<close>, and
  no others, leave the state as it is; any other answer removes the target and merges,
  which leaves the target linked to the node's source.
\<close>

theorem force_out_decision:
  "(\<forall>s. node_get_status depth git (disk w) f n = Inr s \<and> s \<noteq> Conflicted
        \<longrightarrow> node_force_out depth git w f n confirm = (Raised NotSupported, w))
   \<and> (node_get_status depth git (disk w) f n = Inr Conflicted
        \<and> confirm \<in> {''n'', ''N'', ''No'', ''no''}
        \<longrightarrow> node_force_out depth git w f n confirm = (Returned, w))
   \<and> (node_get_status depth git (disk w) f n = Inr Conflicted
        \<and> confirm \<notin> {''n'', ''N'', ''No'', ''no''}
        \<longrightarrow> node_force_out depth git w f n confirm =
              (Returned, w\<lparr>disk := (disk w)(file_path f \<mapsto> Symlink (node_path (file_nodes f ! n)))\<rparr>))"
  by (auto simp: node_force_out_cases split: status.splits)

text \<open>
  C9, witness: refused on the \<open>Identical\<close> \<^verbatim>\<open>~/.inputrc\<close>; on the \<open>Conflicted\<close>
  \<^verbatim>\<open>~/.gitconfig\<close> the answer \<^verbatim>\<open>no\<close> changes nothing and the empty answer links the
  target.
\<close>

theorem force_out_decision_witness:
  "node_get_status 1000 git_plain (disk home) inputrc 0 = Inr Identical
   \<and> node_force_out 1000 git_plain home inputrc 0 [] = (Raised NotSupported, home)
   \<and> node_get_status 1000 git_plain (disk home) gitconfig 0 = Inr Conflicted
   \<and> node_force_out 1000 git_plain home gitconfig 0 ''no'' = (Returned, home)
   \<and> node_force_out 1000 git_plain home gitconfig 0 [] =
       (Returned, home\<lparr>disk := (disk home)(''/home/u/.gitconfig'' \<mapsto> Symlink ''/dot/work/home/.gitconfig'')\<rparr>)"
proof -
  have "node_get_status 1000 git_plain disk_home gitconfig 0 = Inr Conflicted"
    unfolding thousand by (rule gitconfig_Conflicted)
  then have g: "node_get_status 1000 git_plain (disk home) gitconfig 0 = Inr Conflicted"
    by (simp add: home_def)
  have "node_get_status 1000 git_plain disk_home inputrc 0 = Inr Identical"
    unfolding thousand by (rule inputrc_Identical)
  then have i: "node_get_status 1000 git_plain (disk home) inputrc 0 = Inr Identical"
    by (simp add: home_def)
  from force_out_decision[of 1000 git_plain home inputrc 0 "[]"] i
  have a: "node_force_out 1000 git_plain home inputrc 0 [] = (Raised NotSupported, home)"
    by simp
  from force_out_decision[of 1000 git_plain home gitconfig 0 "''no''"] g
  have b: "node_force_out 1000 git_plain home gitconfig 0 ''no'' = (Returned, home)"
    by simp
  from force_out_decision[of 1000 git_plain home gitconfig 0 "[]"] g
  have c: "node_force_out 1000 git_plain home gitconfig 0 [] =
       (Returned, home\<lparr>disk := (disk home)(''/home/u/.gitconfig'' \<mapsto> Symlink ''/dot/work/home/.gitconfig'')\<rparr>)"
    by (simp add: gitconfig_def)
  from i a g b c show ?thesis by simp
qed

subsection \<open>Merge followed by unmerge\<close>

text \<open>
  C5 says that from \<open>Missing\<close>, \<open>Identical\<close> or \<open>Symlinked\<close>, \<^verbatim>\<open>merge()\<close> followed by
  \<^verbatim>\<open>unmerge()\<close> leaves the status \<open>Missing\<close> and no target. A target that is a link to
  a file that is gone is \<open>Missing\<close> (\<^verbatim>\<open>os.path.isfile\<close> is false), but \<^verbatim>\<open>os.symlink\<close>
  refuses to overwrite it: \<^verbatim>\<open>merge()\<close> raises \<^verbatim>\<open>FileExistsError\<close>, \<^verbatim>\<open>unmerge()\<close> does
  nothing, and the stale link stays where it was.
\<close>

theorem merge_fails_on_stale_link:
  "node_get_status (Suc depth) git_plain (disk stale) tmux 0 = Inr Missing
   \<and> node_merge (Suc depth) git_plain stale tmux 0 = (Raised FileExistsError, stale)
   \<and> node_unmerge (Suc depth) git_plain stale tmux 0 = (Returned, stale)
   \<and> disk stale (file_path tmux) = Some (Symlink ''/old/dot/tmux.conf'')"
proof -
  have m: "node_get_status (Suc depth) git_plain (disk stale) tmux 0 = Inr Missing"
    by (simp add: Missing_iff isfile_def SYMLOOP_MAX_def eval_nat_numeral stale_def disk_stale_def tmux_def)
  have d: "disk stale (file_path tmux) = Some (Symlink ''/old/dot/tmux.conf'')"
    by (simp add: stale_def disk_stale_def tmux_def)
  from m d show ?thesis
    by (simp add: node_merge_cases node_unmerge_cases)
qed

text \<open>
  Where nothing at all is at the target of a \<open>Missing\<close> node, and the node's source is
  a regular file, the round trip works as the docstring of \<^verbatim>\<open>Node\<close> says
  (\<^verbatim>\<open>merge: SCN -> S\<close>, \<^verbatim>\<open>unmerge: SCN -> N\<close>).
\<close>

lemma merge_unmerge_roundtrip:
  assumes status: "node_get_status depth git (disk w) f n = Inr s" "s \<in> {Missing, Identical, Symlinked}"
    and absent: "s = Missing \<Longrightarrow> disk w (file_path f) = None"
    and source: "disk w (node_path (file_nodes f ! n)) = Some (Regular c)"
      "node_path (file_nodes f ! n) \<noteq> file_path f"
    and merged: "node_merge depth git w f n = (r1, w1)"
    and unmerged: "node_unmerge depth git w1 f n = (r2, w2)"
  shows "r1 = Returned" "r2 = Returned"
    and "node_get_status depth git (disk w2) f n = Inr Missing"
    and "disk w2 (file_path f) = None"
proof -
  from status(1) obtain d where d: "depth = Suc d" by (cases depth) auto
  let ?link = "(disk w)(file_path f \<mapsto> Symlink (node_path (file_nodes f ! n)))"
  have r1: "r1 = Returned" and s1: "node_get_status depth git (disk w1) f n = Inr Symlinked"
  proof -
    show "r1 = Returned" using status absent merged
      by (auto simp: node_merge_cases)
    show "node_get_status depth git (disk w1) f n = Inr Symlinked"
    proof (cases "s = Symlinked")
      case True
      with status merged show ?thesis by (simp add: node_merge_cases)
    next
      case False
      with status absent merged have w1: "disk w1 = ?link"
        by (auto simp: node_merge_cases)
      have "isfile ?link (file_path f)"
        using source by (intro isfile_link_to_regular[where q="node_path (file_nodes f ! n)"]) auto
      moreover have "linked ?link f n" by (simp add: linked_def)
      ultimately show ?thesis unfolding d w1 by (simp add: Symlinked_iff)
    qed
  qed
  from s1 unmerged have r2: "r2 = Returned" and w2: "disk w2 = (disk w1)(file_path f := None)"
    by (auto simp: node_unmerge_cases)
  show "r1 = Returned" by (rule r1)
  show "r2 = Returned" by (rule r2)
  show "disk w2 (file_path f) = None" by (simp add: w2)
  then show "node_get_status depth git (disk w2) f n = Inr Missing"
    unfolding d by (simp add: Missing_iff isfile_absent)
qed

subsection \<open>Merging twice\<close>

lemma follow_agree:
  "\<forall>q\<in>set (visited k fs p). fs' q = fs q \<Longrightarrow> follow k fs' p = follow k fs p"
  by (induction k arbitrary: p) (auto split: option.splits entry.splits)

lemma visited_agree:
  "\<forall>q\<in>set (visited k fs p). fs' q = fs q \<Longrightarrow> visited k fs' p = visited k fs p"
  by (induction k arbitrary: p) (auto split: option.splits entry.splits)

lemma visited_start: "p \<in> set (visited k fs p)"
  by (cases k) auto

lemma visited_regular: "fs p = Some (Regular c) \<Longrightarrow> visited k fs p = [p]"
  by (cases k) auto

lemma settled_agree:
  assumes "\<forall>q\<in>set (visited SYMLOOP_MAX fs (node_target x)). fs' q = fs q"
  shows "settled fs' x = settled fs x"
proof -
  have "fs' (node_target x) = fs (node_target x)"
    using assms visited_start by blast
  then have "linked fs' (fst x) (snd x) = linked fs (fst x) (snd x)"
    by (simp add: linked_def node_target_def)
  moreover have "isfile fs' (node_target x) = isfile fs (node_target x)"
    using follow_agree[OF assms] by (simp add: isfile_def)
  ultimately show ?thesis by (simp add: settled_def)
qed

lemma settled_status:
  "settled fs (f, n) \<longleftrightarrow> node_get_status (Suc depth) git fs f n = Inr Symlinked"
  by (simp add: settled_def Symlinked_iff node_target_def)

lemma fresh_link_settled:
  assumes "fs (node_source x) = Some (Regular c)" "node_source x \<noteq> node_target x"
  shows "settled (fs(node_target x \<mapsto> Symlink (node_source x))) x"
    and "visited SYMLOOP_MAX (fs(node_target x \<mapsto> Symlink (node_source x))) (node_target x)
           = [node_target x, node_source x]"
proof -
  let ?fs = "fs(node_target x \<mapsto> Symlink (node_source x))"
  have src: "?fs (node_source x) = Some (Regular c)" using assms by simp
  have "isfile ?fs (node_target x)"
    using src by (intro isfile_link_to_regular[where q="node_source x" and c=c]) simp_all
  moreover have "linked ?fs (fst x) (snd x)"
    by (simp add: linked_def node_target_def node_source_def)
  ultimately show "settled ?fs x" by (simp add: settled_def)
  show "visited SYMLOOP_MAX ?fs (node_target x) = [node_target x, node_source x]"
    using visited_regular[of ?fs "node_source x" c, OF src]
    by (simp add: SYMLOOP_MAX_def eval_nat_numeral)
qed

text \<open>
  One successful \<^verbatim>\<open>merge()\<close> of a node whose source is a regular file: the node is
  linked in, and the link is either the one found or one straight to the source.
\<close>

lemma node_merge_settles:
  assumes merged: "node_merge depth git w f n = (Returned, w1)"
    and source: "disk w (node_source (f, n)) = Some (Regular c)"
      "node_source (f, n) \<noteq> node_target (f, n)"
  shows "settled (disk w1) (f, n)"
    and "w1 = w \<or> visited SYMLOOP_MAX (disk w1) (node_target (f, n))
                    = [node_target (f, n), node_source (f, n)]"
proof -
  let ?link = "(disk w)(node_target (f, n) \<mapsto> Symlink (node_source (f, n)))"
  from merged obtain s where s: "node_get_status depth git (disk w) f n = Inr s"
    by (cases "node_get_status depth git (disk w) f n") (auto simp: node_merge_cases)
  then obtain d where d: "depth = Suc d" by (cases depth) auto
  show "settled (disk w1) (f, n)"
    and "w1 = w \<or> visited SYMLOOP_MAX (disk w1) (node_target (f, n))
                    = [node_target (f, n), node_source (f, n)]"
  proof -
    have "(w1 = w \<and> s = Symlinked) \<or> disk w1 = ?link"
      using merged s
      by (cases s) (auto simp: node_merge_cases node_target_def node_source_def split: if_splits)
    then have "settled (disk w1) (f, n) \<and>
        (w1 = w \<or> visited SYMLOOP_MAX (disk w1) (node_target (f, n))
                    = [node_target (f, n), node_source (f, n)])"
    proof
      assume "w1 = w \<and> s = Symlinked"
      with s show ?thesis unfolding d using settled_status[of "disk w" f n d git] by simp
    next
      assume "disk w1 = ?link"
      with fresh_link_settled[of "disk w" "(f, n)" c, OF source] show ?thesis by simp
    qed
    then show "settled (disk w1) (f, n)"
      and "w1 = w \<or> visited SYMLOOP_MAX (disk w1) (node_target (f, n))
                    = [node_target (f, n), node_source (f, n)]"
      by simp_all
  qed
qed

lemma merge_nodes_settle:
  assumes "merge_nodes depth git w ns = (Returned, w1)"
    and "distinct (map node_target ns)"
    and "node_target ` set ns \<subseteq> T"
    and "\<forall>x\<in>set ns. (\<exists>c. disk w (node_source x) = Some (Regular c)) \<and> node_source x \<notin> T"
    and "\<forall>x\<in>set ns. linked (disk w) (fst x) (snd x) \<longrightarrow>
            (\<forall>q\<in>set (visited SYMLOOP_MAX (disk w) (node_target x)). q = node_target x \<or> q \<notin> T)"
  shows "(\<forall>x\<in>set ns. settled (disk w1) x)
       \<and> hook_calls w1 = hook_calls w
       \<and> (\<forall>p. p \<notin> node_target ` set ns \<longrightarrow> disk w1 p = disk w p)"
  using assms
proof (induction ns arbitrary: w)
  case Nil
  then show ?case by simp
next
  case (Cons x xs)
  obtain f n where x: "x = (f, n)" by (cases x)
  from Cons.prems(1) obtain w' where
    step: "node_merge depth git w f n = (Returned, w')"
    and rest: "merge_nodes depth git w' xs = (Returned, w1)"
    by (auto simp: x split: prod.splits outcome.splits)
  have tx: "node_target x \<in> T" and tx_new: "node_target x \<notin> node_target ` set xs"
    using Cons.prems(2,3) by auto
  from Cons.prems(4) obtain c where src: "disk w (node_source x) = Some (Regular c)"
    and src_T: "node_source x \<notin> T" by auto
  from src_T tx have src_ne: "node_source x \<noteq> node_target x" by auto
  have frame: "disk w' p = disk w p" if "p \<noteq> node_target x" for p
    using node_merge_frame(2)[OF step] that by (simp add: x node_target_def)
  have hooks: "hook_calls w' = hook_calls w"
    using node_merge_frame(1)[OF step] .
  have settled_x: "settled (disk w') x"
    using node_merge_settles(1)[OF step] src src_ne by (simp add: x)
  have visited_x: "\<forall>q\<in>set (visited SYMLOOP_MAX (disk w') (node_target x)). q = node_target x \<or> q \<notin> T"
  proof -
    from node_merge_settles(2)[OF step] src src_ne
    have "w' = w \<or> visited SYMLOOP_MAX (disk w') (node_target x) = [node_target x, node_source x]"
      by (simp add: x)
    then show ?thesis
    proof
      assume same: "w' = w"
      with settled_x have "linked (disk w) (fst x) (snd x)" by (simp add: settled_def)
      with Cons.prems(5) same show ?thesis by simp
    next
      assume "visited SYMLOOP_MAX (disk w') (node_target x) = [node_target x, node_source x]"
      with src_T show ?thesis by simp
    qed
  qed
  have agree: "\<forall>q\<in>set (visited SYMLOOP_MAX (disk w) (node_target y)). disk w' q = disk w q"
    if "y \<in> set xs" "linked (disk w) (fst y) (snd y)" for y
  proof
    fix q assume q: "q \<in> set (visited SYMLOOP_MAX (disk w) (node_target y))"
    from that(1) tx_new have ne: "node_target y \<noteq> node_target x" by (metis imageI)
    from that(1) have "y \<in> set (x # xs)" by simp
    with Cons.prems(5) that(2) q have "q = node_target y \<or> q \<notin> T" by blast
    then have "q \<noteq> node_target x"
    proof
      assume "q = node_target y"
      with ne show ?thesis by simp
    next
      assume "q \<notin> T"
      with tx show ?thesis by auto
    qed
    then show "disk w' q = disk w q" by (rule frame)
  qed
  have ih_src: "\<forall>y\<in>set xs. (\<exists>c. disk w' (node_source y) = Some (Regular c)) \<and> node_source y \<notin> T"
  proof
    fix y assume y: "y \<in> set xs"
    with Cons.prems(4) obtain c where c: "disk w (node_source y) = Some (Regular c)"
      and nT: "node_source y \<notin> T" by auto
    from nT tx have "node_source y \<noteq> node_target x" by auto
    from frame[OF this] c have "disk w' (node_source y) = Some (Regular c)" by simp
    with nT show "(\<exists>c. disk w' (node_source y) = Some (Regular c)) \<and> node_source y \<notin> T"
      by blast
  qed
  have ih_visited: "\<forall>y\<in>set xs. linked (disk w') (fst y) (snd y) \<longrightarrow>
      (\<forall>q\<in>set (visited SYMLOOP_MAX (disk w') (node_target y)). q = node_target y \<or> q \<notin> T)"
  proof (intro ballI impI)
    fix y q assume y: "y \<in> set xs" and l': "linked (disk w') (fst y) (snd y)"
      and q: "q \<in> set (visited SYMLOOP_MAX (disk w') (node_target y))"
    from y tx_new have "node_target y \<noteq> node_target x" by (metis imageI)
    then have "disk w' (node_target y) = disk w (node_target y)"
      by (rule frame)
    then have "disk w' (file_path (fst y)) = disk w (file_path (fst y))"
      by (simp add: node_target_def)
    with l' have l: "linked (disk w) (fst y) (snd y)" by (simp add: linked_def)
    from visited_agree[OF agree[OF y l]] q
    have "q \<in> set (visited SYMLOOP_MAX (disk w) (node_target y))" by simp
    moreover from y have "y \<in> set (x # xs)" by simp
    ultimately show "q = node_target y \<or> q \<notin> T" using Cons.prems(5) l by blast
  qed
  from Cons.prems(2,3) have "distinct (map node_target xs)" "node_target ` set xs \<subseteq> T"
    by auto
  from Cons.IH[OF rest this ih_src ih_visited]
  have ih: "\<forall>y\<in>set xs. settled (disk w1) y" "hook_calls w1 = hook_calls w'"
    "\<forall>p. p \<notin> node_target ` set xs \<longrightarrow> disk w1 p = disk w' p"
    by simp_all
  have "\<forall>q\<in>set (visited SYMLOOP_MAX (disk w') (node_target x)). disk w1 q = disk w' q"
  proof
    fix q assume qv: "q \<in> set (visited SYMLOOP_MAX (disk w') (node_target x))"
    from visited_x qv have "q = node_target x \<or> q \<notin> T" by (rule bspec)
    then have "q \<notin> node_target ` set xs"
    proof
      assume "q = node_target x"
      with tx_new show ?thesis by simp
    next
      assume "q \<notin> T"
      with \<open>node_target ` set xs \<subseteq> T\<close> show ?thesis by (meson subsetD)
    qed
    then show "disk w1 q = disk w' q" by (rule ih(3)[rule_format])
  qed
  from settled_agree[OF this] settled_x have "settled (disk w1) x" by simp
  moreover have "\<forall>p. p \<notin> node_target ` set (x # xs) \<longrightarrow> disk w1 p = disk w p"
  proof (intro allI impI)
    fix p assume "p \<notin> node_target ` set (x # xs)"
    then have p: "p \<noteq> node_target x" "p \<notin> node_target ` set xs" by simp_all
    from ih(3) p(2) have "disk w1 p = disk w' p" by blast
    also from p(1) have "disk w' p = disk w p" by (rule frame)
    finally show "disk w1 p = disk w p" .
  qed
  ultimately show ?case using ih(1,2) hooks by simp
qed

lemma layer_scan_all_Symlinked:
  "\<forall>x\<in>set ns. st x = Inr Symlinked \<Longrightarrow> layer_scan st acc ns = Inr acc"
  by (induction ns) auto

lemma layer_status_depth_0: "layer_get_status 0 git fs l = Inr s \<Longrightarrow> layer_nodes l = []"
  by (cases "layer_nodes l") (auto simp: layer_get_status_def)

lemma layer_all_settled:
  assumes "\<forall>x\<in>set (layer_nodes l). settled fs x"
  shows "layer_get_status (Suc depth) git fs l = Inr Symlinked"
proof -
  have "\<forall>x\<in>set (layer_nodes l). (\<lambda>(f, n). node_get_status (Suc depth) git fs f n) x = Inr Symlinked"
    using assms settled_status[of fs _ _ depth git] by auto
  then show ?thesis unfolding layer_get_status_def by (rule layer_scan_all_Symlinked)
qed

lemma node_merge_twice:
  assumes "node_merge depth git w f n = (Returned, w1)"
    and "disk w (node_source (f, n)) = Some (Regular c)"
    and "node_source (f, n) \<noteq> file_path f"
  shows "node_merge depth git w1 f n = (Returned, w1)
       \<and> node_get_status depth git (disk w1) f n = Inr Symlinked"
proof -
  from assms(1) obtain d where d: "depth = Suc d"
    by (cases depth) (auto simp: node_merge_cases)
  from assms(3) have "node_source (f, n) \<noteq> node_target (f, n)"
    by (simp add: node_target_def)
  from node_merge_settles(1)[OF assms(1,2) this]
  have "node_get_status depth git (disk w1) f n = Inr Symlinked"
    unfolding d using settled_status[of "disk w1" f n d git] by simp
  then show ?thesis by (simp add: node_merge_cases)
qed

lemma layer_merge_twice:
  assumes merged: "layer_merge depth git w l = (Returned, w2)"
    and targets: "distinct (map node_target (layer_nodes l))"
    and sources: "\<forall>x\<in>set (layer_nodes l).
        (\<exists>c. disk w (node_source x) = Some (Regular c))
        \<and> node_source x \<notin> node_target ` set (layer_nodes l)"
    and chains: "\<forall>x\<in>set (layer_nodes l). linked (disk w) (fst x) (snd x) \<longrightarrow>
        (\<forall>q\<in>set (visited SYMLOOP_MAX (disk w) (node_target x)).
           q = node_target x \<or> q \<notin> node_target ` set (layer_nodes l))"
  shows "layer_merge depth git w2 l = (Returned, w2)
       \<and> layer_get_status depth git (disk w2) l = Inr Symlinked"
proof -
  from merged obtain s where s: "layer_get_status depth git (disk w) l = Inr s"
    by (cases "layer_get_status depth git (disk w) l") (auto simp: layer_merge_def)
  show ?thesis
  proof (cases "s = Symlinked")
    case True
    with merged s have "w2 = w" by (simp add: layer_merge_def)
    with s True show ?thesis by (simp add: layer_merge_def)
  next
    case False
    with merged s obtain w0 where
      run: "merge_nodes depth git w (layer_nodes l) = (Returned, w0)"
      and w2: "w2 = w0\<lparr>hook_calls := hook_calls w0 @ merge_hooks l\<rparr>"
      by (auto simp: layer_merge_def split: if_splits prod.splits outcome.splits)
    have "layer_nodes l \<noteq> []"
      using s False by (auto simp: layer_get_status_def)
    with s obtain d where d: "depth = Suc d"
      by (cases depth) (auto dest: layer_status_depth_0)
    from merge_nodes_settle[OF run targets subset_refl sources chains]
    have "\<forall>x\<in>set (layer_nodes l). settled (disk w2) x"
      by (simp add: w2)
    then have "layer_get_status depth git (disk w2) l = Inr Symlinked"
      unfolding d by (rule layer_all_settled)
    then show ?thesis by (simp add: layer_merge_def)
  qed
qed

text \<open>
  In the flat namespace, where no path is reached through a link in a parent directory,
  a second \<^verbatim>\<open>merge()\<close> right after a successful one changes nothing, and the status is
  then \<open>Symlinked\<close>, under these conditions. For a node, its source is a regular file
  other than the target. For a layer, its nodes have different targets, their sources
  are regular files that are no targets of the layer, and where a target is already a
  link to its node's source, following that link does not pass through another target
  of the layer.
\<close>

lemma merge_twice_regular_sources:
  "(node_merge depth git w f n = (Returned, w1)
      \<and> (\<exists>c. disk w (node_source (f, n)) = Some (Regular c))
      \<and> node_source (f, n) \<noteq> file_path f
    \<longrightarrow> node_merge depth git w1 f n = (Returned, w1)
        \<and> node_get_status depth git (disk w1) f n = Inr Symlinked)
   \<and> (layer_merge depth git w l = (Returned, w2)
      \<and> distinct (map node_target (layer_nodes l))
      \<and> (\<forall>x\<in>set (layer_nodes l).
            (\<exists>c. disk w (node_source x) = Some (Regular c))
            \<and> node_source x \<notin> node_target ` set (layer_nodes l))
      \<and> (\<forall>x\<in>set (layer_nodes l). linked (disk w) (fst x) (snd x) \<longrightarrow>
            (\<forall>q\<in>set (visited SYMLOOP_MAX (disk w) (node_target x)).
               q = node_target x \<or> q \<notin> node_target ` set (layer_nodes l)))
    \<longrightarrow> layer_merge depth git w2 l = (Returned, w2)
        \<and> layer_get_status depth git (disk w2) l = Inr Symlinked)"
proof (intro conjI impI)
  assume a: "node_merge depth git w f n = (Returned, w1)
      \<and> (\<exists>c. disk w (node_source (f, n)) = Some (Regular c))
      \<and> node_source (f, n) \<noteq> file_path f"
  then obtain c where "disk w (node_source (f, n)) = Some (Regular c)" by blast
  with a have both: "node_merge depth git w1 f n = (Returned, w1)
       \<and> node_get_status depth git (disk w1) f n = Inr Symlinked"
    by (intro node_merge_twice[where c=c and w=w]) simp_all
  from both show "node_merge depth git w1 f n = (Returned, w1)" ..
  from both show "node_get_status depth git (disk w1) f n = Inr Symlinked" ..
next
  assume b: "layer_merge depth git w l = (Returned, w2)
      \<and> distinct (map node_target (layer_nodes l))
      \<and> (\<forall>x\<in>set (layer_nodes l).
            (\<exists>c. disk w (node_source x) = Some (Regular c))
            \<and> node_source x \<notin> node_target ` set (layer_nodes l))
      \<and> (\<forall>x\<in>set (layer_nodes l). linked (disk w) (fst x) (snd x) \<longrightarrow>
            (\<forall>q\<in>set (visited SYMLOOP_MAX (disk w) (node_target x)).
               q = node_target x \<or> q \<notin> node_target ` set (layer_nodes l)))"
  then have both: "layer_merge depth git w2 l = (Returned, w2)
       \<and> layer_get_status depth git (disk w2) l = Inr Symlinked"
    by (intro layer_merge_twice[where w=w]) simp_all
  from both show "layer_merge depth git w2 l = (Returned, w2)" ..
  from both show "layer_get_status depth git (disk w2) l = Inr Symlinked" ..
qed

lemma visited_absent: "fs p = None \<Longrightarrow> visited k fs p = [p]"
  by (cases k) auto

lemma home_tmux_status:
  "node_get_status (Suc depth) git_plain (disk home_tmux) inputrc 0 = Inr Identical"
  "node_get_status (Suc depth) git_plain (disk home_tmux) gitconfig 0 = Inr Conflicted"
proof -
  show "node_get_status (Suc depth) git_plain (disk home_tmux) inputrc 0 = Inr Identical"
    by (simp add: Identical_iff isfile_def SYMLOOP_MAX_def eval_nat_numeral home_tmux_def home_def
        disk_home_def inputrc_def linked_def git_diff_def git_plain_def strip_def)
  show "node_get_status (Suc depth) git_plain (disk home_tmux) gitconfig 0 = Inr Conflicted"
    by (rule solo_unclaimed_Conflicted)
       (simp_all add: unclaimed_def isfile_def SYMLOOP_MAX_def eval_nat_numeral home_tmux_def home_def
          disk_home_def gitconfig_def linked_def git_diff_def git_plain_def strip_def is_space_def)
qed

lemma merge_tmux: "node_merge (Suc depth) git_plain home tmux 0 = (Returned, home_tmux)"
proof -
  have "node_get_status (Suc depth) git_plain (disk home) tmux 0 = Inr Missing"
    by (simp add: home_def tmux_Missing)
  moreover have "disk home (file_path tmux) = None"
    by (simp add: home_def disk_home_def tmux_def)
  ultimately show ?thesis
    by (simp add: node_merge_cases home_tmux_def tmux_def)
qed

lemma merge_inputrc: "node_merge (Suc depth) git_plain home_tmux inputrc 0 = (Returned, home_merged\<lparr>hook_calls := []\<rparr>)"
proof -
  have "node_merge (Suc depth) git_plain home_tmux inputrc 0 =
      (Returned, home_tmux\<lparr>disk := (disk home_tmux)(file_path inputrc \<mapsto>
          Symlink (node_path (file_nodes inputrc ! 0)))\<rparr>)"
    by (simp add: node_merge_cases home_tmux_status)
  also have "home_tmux\<lparr>disk := (disk home_tmux)(file_path inputrc \<mapsto>
          Symlink (node_path (file_nodes inputrc ! 0)))\<rparr> = home_merged\<lparr>hook_calls := []\<rparr>"
    by (simp add: home_tmux_def home_merged_def home_def inputrc_def)
  finally show ?thesis .
qed

lemma merge_work:
  "layer_merge (Suc depth) git_plain home (work [(tmux, 0), (inputrc, 0)]) = (Returned, home_merged)"
proof -
  have "layer_get_status (Suc depth) git_plain (disk home) (work [(tmux, 0), (inputrc, 0)]) = Inr Missing"
    by (simp add: layer_get_status_def work_def home_def tmux_Missing)
  then show ?thesis
    by (simp add: layer_merge_def work_def merge_tmux merge_inputrc home_merged_def)
qed

lemma home_tmux_linked:
  "node_get_status (Suc depth) git_plain (disk home_tmux) tmux 0 = Inr Symlinked"
proof -
  have "isfile (disk home_tmux) (file_path tmux)"
    by (rule isfile_link_to_regular[where q="''/dot/work/home/.tmux.conf''"
          and c="''set -g mouse on''"])
       (simp_all add: home_tmux_def home_def disk_home_def tmux_def)
  moreover have "linked (disk home_tmux) tmux 0"
    by (simp add: linked_def home_tmux_def tmux_def)
  ultimately show ?thesis by (simp add: Symlinked_iff)
qed

lemma merge_work_again:
  "layer_merge (Suc depth) git_plain home_tmux (work [(tmux, 0), (inputrc, 0)])
     = (Returned, home_merged)"
proof -
  have "layer_get_status (Suc depth) git_plain (disk home_tmux) (work [(tmux, 0), (inputrc, 0)])
      = Inr Identical"
    by (simp add: layer_get_status_def work_def home_tmux_linked home_tmux_status)
  moreover have "node_merge (Suc depth) git_plain home_tmux tmux 0 = (Returned, home_tmux)"
    by (simp add: node_merge_cases home_tmux_linked)
  ultimately show ?thesis
    by (simp add: layer_merge_def work_def merge_inputrc home_merged_def)
qed

lemma visited_link_to_regular:
  "fs p = Some (Symlink q) \<Longrightarrow> fs q = Some (Regular c) \<Longrightarrow> visited SYMLOOP_MAX fs p = [p, q]"
  using visited_regular[of fs q c] by (simp add: SYMLOOP_MAX_def eval_nat_numeral)

text \<open>
  For example: merging the node of \<^verbatim>\<open>~/.tmux.conf\<close>, and merging the layer that holds
  \<^verbatim>\<open>~/.tmux.conf\<close> and \<^verbatim>\<open>~/.inputrc\<close>, before and after \<^verbatim>\<open>~/.tmux.conf\<close> is linked;
  the hook runs once.
\<close>

lemma merge_twice_example:
  "node_merge 1000 git_plain home tmux 0 = (Returned, home_tmux)
   \<and> node_merge 1000 git_plain home_tmux tmux 0 = (Returned, home_tmux)
   \<and> node_get_status 1000 git_plain (disk home_tmux) tmux 0 = Inr Symlinked
   \<and> layer_merge 1000 git_plain home (work [(tmux, 0), (inputrc, 0)]) = (Returned, home_merged)
   \<and> layer_merge 1000 git_plain home_tmux (work [(tmux, 0), (inputrc, 0)]) = (Returned, home_merged)
   \<and> layer_merge 1000 git_plain home_merged (work [(tmux, 0), (inputrc, 0)]) = (Returned, home_merged)
   \<and> layer_get_status 1000 git_plain (disk home_merged) (work [(tmux, 0), (inputrc, 0)]) = Inr Symlinked"
proof -
  let ?l = "work [(tmux, 0), (inputrc, 0)]"
  have n: "node_merge 1000 git_plain home tmux 0 = (Returned, home_tmux)"
    unfolding thousand by (rule merge_tmux)
  have l: "layer_merge 1000 git_plain home ?l = (Returned, home_merged)"
    unfolding thousand by (rule merge_work)
  have src: "\<exists>c. disk home (node_source (tmux, 0)) = Some (Regular c)"
    "node_source (tmux, 0) \<noteq> file_path tmux"
    by (simp_all add: node_source_def tmux_def home_def disk_home_def)
  have targets: "distinct (map node_target (layer_nodes ?l))"
    by (simp add: work_def node_target_def tmux_def inputrc_def)
  have sources: "\<forall>x\<in>set (layer_nodes ?l).
            (\<exists>c. disk home (node_source x) = Some (Regular c))
            \<and> node_source x \<notin> node_target ` set (layer_nodes ?l)"
    by (simp add: work_def node_target_def node_source_def tmux_def inputrc_def home_def disk_home_def)
  have chains: "\<forall>x\<in>set (layer_nodes ?l). linked (disk home) (fst x) (snd x) \<longrightarrow>
            (\<forall>q\<in>set (visited SYMLOOP_MAX (disk home) (node_target x)).
               q = node_target x \<or> q \<notin> node_target ` set (layer_nodes ?l))"
  proof -
    have "visited SYMLOOP_MAX (disk home) (node_target (tmux, 0)) = [node_target (tmux, 0)]"
      by (rule visited_absent) (simp add: node_target_def tmux_def home_def disk_home_def)
    moreover
    have "visited SYMLOOP_MAX (disk home) (node_target (inputrc, 0)) = [node_target (inputrc, 0)]"
      by (rule visited_regular[where c="''set bell-style none''"])
         (simp add: node_target_def inputrc_def home_def disk_home_def)
    ultimately show ?thesis by (simp add: work_def)
  qed
  have l': "layer_merge 1000 git_plain home_tmux ?l = (Returned, home_merged)"
    unfolding thousand by (rule merge_work_again)
  have sources': "\<forall>x\<in>set (layer_nodes ?l).
            (\<exists>c. disk home_tmux (node_source x) = Some (Regular c))
            \<and> node_source x \<notin> node_target ` set (layer_nodes ?l)"
    by (simp add: work_def node_target_def node_source_def tmux_def inputrc_def home_tmux_def
        home_def disk_home_def)
  have chains': "\<forall>x\<in>set (layer_nodes ?l). linked (disk home_tmux) (fst x) (snd x) \<longrightarrow>
            (\<forall>q\<in>set (visited SYMLOOP_MAX (disk home_tmux) (node_target x)).
               q = node_target x \<or> q \<notin> node_target ` set (layer_nodes ?l))"
  proof -
    have "visited SYMLOOP_MAX (disk home_tmux) (node_target (tmux, 0))
        = [node_target (tmux, 0), ''/dot/work/home/.tmux.conf'']"
      by (rule visited_link_to_regular[where c="''set -g mouse on''"])
         (simp_all add: node_target_def tmux_def home_tmux_def home_def disk_home_def)
    moreover
    have "visited SYMLOOP_MAX (disk home_tmux) (node_target (inputrc, 0)) = [node_target (inputrc, 0)]"
      by (rule visited_regular[where c="''set bell-style none''"])
         (simp add: node_target_def inputrc_def home_tmux_def home_def disk_home_def)
    ultimately show ?thesis
      by (simp add: work_def node_target_def tmux_def inputrc_def)
  qed
  have again: "layer_merge 1000 git_plain home_merged ?l = (Returned, home_merged)
      \<and> layer_get_status 1000 git_plain (disk home_merged) ?l = Inr Symlinked"
    using merge_twice_regular_sources[where depth=1000 and git=git_plain and w=home_tmux and l="?l"
        and ?w2.0=home_merged and f=tmux and n=0 and ?w1.0=home_tmux]
      l' targets sources' chains'
    by simp
  from merge_twice_regular_sources[where depth=1000 and git=git_plain and w=home and l="?l"
        and ?w2.0=home_merged and f=tmux and n=0 and ?w1.0=home_tmux]
    n l l' src targets sources chains again
  show ?thesis by simp
qed

lemma not_isfile_dangling:
  "fs p = Some (Symlink q) \<Longrightarrow> fs q = None \<Longrightarrow> \<not> isfile fs p"
  "fs p = Some (Symlink q) \<Longrightarrow> fs q = Some (Symlink r) \<Longrightarrow> fs r = None \<Longrightarrow> \<not> isfile fs p"
  by (simp_all add: isfile_def SYMLOOP_MAX_def eval_nat_numeral)

text \<open>
  C6 says that a second \<^verbatim>\<open>merge()\<close> right after a successful one is a no-op that
  leaves the status \<open>Symlinked\<close>. For a node whose layer file is a link to a file that
  is gone, the first \<^verbatim>\<open>merge()\<close> returns and leaves a link at the target, but the status
  is still \<open>Missing\<close> (\<^verbatim>\<open>os.path.isfile\<close> is false), and the second \<^verbatim>\<open>merge()\<close> raises
  \<^verbatim>\<open>FileExistsError\<close> in \<^verbatim>\<open>os.symlink\<close>. The same holds for the layer of that node: its
  first \<^verbatim>\<open>merge()\<close> returns after running the hook, and the second one raises.
\<close>

theorem second_merge_fails_on_dangling_source:
  "node_get_status (Suc depth) git_plain (disk dangling) screenrc 0 = Inr Missing
   \<and> node_merge (Suc depth) git_plain dangling screenrc 0 = (Returned, dangling_linked)
   \<and> node_get_status (Suc depth) git_plain (disk dangling_linked) screenrc 0 = Inr Missing
   \<and> node_merge (Suc depth) git_plain dangling_linked screenrc 0
       = (Raised FileExistsError, dangling_linked)
   \<and> layer_merge (Suc depth) git_plain dangling (work [(screenrc, 0)])
       = (Returned, dangling_linked\<lparr>hook_calls := [''/dot/work/merge/reload'']\<rparr>)
   \<and> layer_get_status (Suc depth) git_plain (disk dangling_linked) (work [(screenrc, 0)])
       = Inr Missing
   \<and> layer_merge (Suc depth) git_plain
         (dangling_linked\<lparr>hook_calls := [''/dot/work/merge/reload'']\<rparr>) (work [(screenrc, 0)])
       = (Raised FileExistsError, dangling_linked\<lparr>hook_calls := [''/dot/work/merge/reload'']\<rparr>)"
proof -
  let ?hooked = "dangling_linked\<lparr>hook_calls := [''/dot/work/merge/reload'']\<rparr>"
  have absent: "disk dangling (file_path screenrc) = None"
    by (simp add: dangling_def screenrc_def)
  have s0: "node_get_status (Suc depth) git_plain (disk dangling) screenrc 0 = Inr Missing"
    using absent by (simp add: Missing_iff isfile_absent)
  have "node_merge (Suc depth) git_plain dangling screenrc 0 =
      (Returned, dangling\<lparr>disk := (disk dangling)(file_path screenrc \<mapsto>
          Symlink (node_path (file_nodes screenrc ! 0)))\<rparr>)"
    using s0 absent by (simp add: node_merge_cases)
  then have m1: "node_merge (Suc depth) git_plain dangling screenrc 0 = (Returned, dangling_linked)"
    by (simp add: dangling_linked_def screenrc_def)
  have there: "disk dangling_linked (file_path screenrc) = Some (Symlink ''/dot/work/home/.screenrc'')"
    by (simp add: dangling_linked_def screenrc_def)
  have "\<not> isfile (disk dangling_linked) (file_path screenrc)"
    by (rule not_isfile_dangling(2)[where q="''/dot/work/home/.screenrc''"
          and r="''/opt/shared/screenrc''"])
       (simp_all add: dangling_linked_def dangling_def screenrc_def)
  then have s1: "node_get_status (Suc depth) git_plain (disk dangling_linked) screenrc 0 = Inr Missing"
    by (simp add: Missing_iff)
  have m2: "node_merge (Suc depth) git_plain dangling_linked screenrc 0
       = (Raised FileExistsError, dangling_linked)"
    using s1 there by (simp add: node_merge_cases)
  have l0: "layer_get_status (Suc depth) git_plain (disk dangling) (work [(screenrc, 0)]) = Inr Missing"
    using s0 by (simp add: layer_get_status_def work_def)
  have lm1: "layer_merge (Suc depth) git_plain dangling (work [(screenrc, 0)]) = (Returned, ?hooked)"
    using l0 m1 by (simp add: layer_merge_def work_def dangling_linked_def dangling_def)
  have l1: "layer_get_status (Suc depth) git_plain (disk dangling_linked) (work [(screenrc, 0)])
       = Inr Missing"
    using s1 by (simp add: layer_get_status_def work_def)
  have s1': "node_get_status (Suc depth) git_plain (disk ?hooked) screenrc 0 = Inr Missing"
    using s1 by simp
  have "node_merge (Suc depth) git_plain ?hooked screenrc 0 = (Raised FileExistsError, ?hooked)"
    using s1' there by (simp add: node_merge_cases)
  moreover have "layer_get_status (Suc depth) git_plain (disk ?hooked) (work [(screenrc, 0)])
       = Inr Missing"
    using l1 by simp
  ultimately
  have lm2: "layer_merge (Suc depth) git_plain ?hooked (work [(screenrc, 0)])
       = (Raised FileExistsError, ?hooked)"
    by (simp add: layer_merge_def work_def)
  from s0 m1 s1 m2 lm1 l1 lm2 show ?thesis by simp
qed

subsection \<open>A layer merge that stops half way\<close>

lemma merge_nodes_append:
  "merge_nodes depth git w (xs @ ys) =
     (case merge_nodes depth git w xs of
        (Raised e, w1) \<Rightarrow> (Raised e, w1)
      | (Returned, w1) \<Rightarrow> merge_nodes depth git w1 ys)"
  by (induction xs arbitrary: w) (auto split: prod.splits outcome.splits)

lemma merge_nodes_frame:
  "merge_nodes depth git w ns = (r, w1) \<Longrightarrow>
   hook_calls w1 = hook_calls w \<and> (\<forall>p. p \<notin> node_target ` set ns \<longrightarrow> disk w1 p = disk w p)"
proof (induction ns arbitrary: w)
  case Nil
  then show ?case by simp
next
  case (Cons x xs)
  obtain f n where x: "x = (f, n)" by (cases x)
  obtain r' w' where step: "node_merge depth git w f n = (r', w')"
    by (cases "node_merge depth git w f n")
  note fr = node_merge_frame[OF step]
  show ?case
  proof (cases r')
    case (Raised e)
    with Cons.prems step have "w1 = w'" by (simp add: x)
    with fr show ?thesis by (simp add: x node_target_def)
  next
    case Returned
    with Cons.prems step have "merge_nodes depth git w' xs = (r, w1)" by (simp add: x)
    from Cons.IH[OF this] fr show ?thesis by (simp add: x node_target_def)
  qed
qed

lemma linked_agree: "fs' (file_path f) = fs (file_path f) \<Longrightarrow> linked fs' f n = linked fs f n"
  by (simp add: linked_def)

lemma merge_nodes_linked:
  "merge_nodes depth git w ns = (Returned, w1) \<Longrightarrow> distinct (map node_target ns) \<Longrightarrow>
   \<forall>(f, n)\<in>set ns. linked (disk w1) f n"
proof (induction ns arbitrary: w)
  case Nil
  then show ?case by simp
next
  case (Cons x xs)
  obtain f n where x: "x = (f, n)" by (cases x)
  from Cons.prems(1) obtain w' where
    step: "node_merge depth git w f n = (Returned, w')"
    and rest: "merge_nodes depth git w' xs = (Returned, w1)"
    by (auto simp: x split: prod.splits outcome.splits)
  have tx: "node_target x = file_path f" by (simp add: x node_target_def)
  from Cons.prems(2) have "node_target x \<notin> node_target ` set xs" and d: "distinct (map node_target xs)"
    by simp_all
  then have new: "file_path f \<notin> node_target ` set xs" by (simp add: tx)
  from merge_nodes_frame[OF rest] new have "disk w1 (file_path f) = disk w' (file_path f)"
    by blast
  from linked_agree[of "disk w1" f "disk w'" n, OF this] node_merge_linked[OF step]
  have "linked (disk w1) f n"
    by simp
  with Cons.IH[OF rest d] show ?case by (simp add: x)
qed

lemma layer_status_first_Missing:
  assumes "layer_nodes l = ok @ (g, m) # others"
    and "\<forall>(h, k)\<in>set ok. node_get_status depth git fs h k = Inr Symlinked
                          \<or> node_get_status depth git fs h k = Inr Identical"
    and "node_get_status depth git fs g m = Inr Missing"
  shows "layer_get_status depth git fs l = Inr Missing"
proof -
  let ?st = "\<lambda>(f, n). node_get_status depth git fs f n"
  from assms(2) have "\<forall>x\<in>set ok. ?st x = Inr Symlinked \<or> ?st x = Inr Identical"
    by auto
  from layer_scan_prefix[OF this] assms(3) show ?thesis
    by (simp add: layer_get_status_def assms(1))
qed

text \<open>
  C10, amended. Let the first node of a layer that is not \<open>Symlinked\<close> or \<open>Identical\<close>
  be \<open>Missing\<close>, let the nodes up to some later node be merged without an error, and
  let that later node be \<open>Owned\<close> or \<open>Conflicted\<close> when its turn comes. Then the layer is
  \<open>Missing\<close>, so \<^verbatim>\<open>Layer.merge\<close> starts; it raises \<^verbatim>\<open>Exception("Not supported")\<close> at the
  later node; the state it leaves is the one after the merges of the nodes before it,
  whose targets are all links to their sources; and no merge hook has run.
\<close>

theorem layer_merge_not_atomic:
  assumes nodes: "layer_nodes l = pre @ (f, n) # rest"
    and first: "pre = ok @ (g, m) # mid"
      "\<forall>(h, k)\<in>set ok. node_get_status depth git (disk w) h k = Inr Symlinked
                          \<or> node_get_status depth git (disk w) h k = Inr Identical"
      "node_get_status depth git (disk w) g m = Inr Missing"
    and merged: "merge_nodes depth git w pre = (Returned, w1)"
    and offending: "node_get_status depth git (disk w1) f n = Inr Owned
                    \<or> node_get_status depth git (disk w1) f n = Inr Conflicted"
    and targets: "distinct (map node_target pre)"
  shows "layer_get_status depth git (disk w) l = Inr Missing
       \<and> layer_merge depth git w l = (Raised NotSupported, w1)
       \<and> hook_calls w1 = hook_calls w
       \<and> (\<forall>(h, k)\<in>set pre. linked (disk w1) h k)"
proof -
  have status: "layer_get_status depth git (disk w) l = Inr Missing"
    using first(2,3) by (intro layer_status_first_Missing[where ok=ok and g=g and m=m])
      (simp_all add: nodes first(1))
  from offending have "node_merge depth git w1 f n = (Raised NotSupported, w1)"
    by (auto simp: node_merge_cases)
  with merged have "merge_nodes depth git w (layer_nodes l) = (Raised NotSupported, w1)"
    by (simp add: nodes merge_nodes_append)
  with status have "layer_merge depth git w l = (Raised NotSupported, w1)"
    by (simp add: layer_merge_def)
  moreover from merge_nodes_frame[OF merged] have "hook_calls w1 = hook_calls w" ..
  moreover note merge_nodes_linked[OF merged targets] status
  ultimately show ?thesis by simp
qed

text \<open>
  C10, as stated, fails: a \<open>Missing\<close> node before a \<open>Conflicted\<close> one does not make the
  layer \<open>Missing\<close> when an \<open>Owned\<close> node comes first. The layer is \<open>Owned\<close>,
  \<^verbatim>\<open>Layer.merge\<close> is refused before any node is touched, and nothing is merged.
\<close>

theorem layer_merge_owned_first:
  "node_get_status 1000 git_plain (disk home) vimrc 1 = Inr Owned
   \<and> node_get_status 1000 git_plain (disk home) tmux 0 = Inr Missing
   \<and> node_get_status 1000 git_plain (disk home) gitconfig 0 = Inr Conflicted
   \<and> layer_get_status 1000 git_plain (disk home) (work [(vimrc, 1), (tmux, 0), (gitconfig, 0)]) = Inr Owned
   \<and> layer_merge 1000 git_plain home (work [(vimrc, 1), (tmux, 0), (gitconfig, 0)])
       = (Raised NotSupported, home)"
proof -
  have h: "disk home = disk_home" by (simp add: home_def)
  have v: "node_get_status 1000 git_plain (disk home) vimrc 1 = Inr Owned"
    unfolding thousand h by (rule vimrc_linked_status)
  have t: "node_get_status 1000 git_plain (disk home) tmux 0 = Inr Missing"
    unfolding thousand h by (rule tmux_Missing)
  have g: "node_get_status 1000 git_plain (disk home) gitconfig 0 = Inr Conflicted"
    unfolding thousand h by (rule gitconfig_Conflicted)
  have l: "layer_get_status 1000 git_plain (disk home) (work [(vimrc, 1), (tmux, 0), (gitconfig, 0)]) = Inr Owned"
    using v by (simp add: layer_get_status_def work_def)
  then have "layer_merge 1000 git_plain home (work [(vimrc, 1), (tmux, 0), (gitconfig, 0)])
       = (Raised NotSupported, home)"
    by (simp add: layer_merge_def)
  with v t g l show ?thesis by simp
qed

text \<open>
  C10, witness: the layer with \<^verbatim>\<open>~/.tmux.conf\<close> (\<open>Missing\<close>) before \<^verbatim>\<open>~/.gitconfig\<close>
  (\<open>Conflicted\<close>). The merge raises at the second node and leaves the link of the
  first one behind.
\<close>

theorem layer_merge_not_atomic_witness:
  "node_get_status 1000 git_plain (disk home) tmux 0 = Inr Missing
   \<and> node_get_status 1000 git_plain (disk home) gitconfig 0 = Inr Conflicted
   \<and> layer_get_status 1000 git_plain (disk home) (work [(tmux, 0), (gitconfig, 0)]) = Inr Missing
   \<and> layer_merge 1000 git_plain home (work [(tmux, 0), (gitconfig, 0)])
       = (Raised NotSupported, home_tmux)
   \<and> hook_calls home_tmux = []
   \<and> disk home ''/home/u/.tmux.conf'' = None
   \<and> disk home_tmux ''/home/u/.tmux.conf'' = Some (Symlink ''/dot/work/home/.tmux.conf'')
   \<and> linked (disk home_tmux) tmux 0"
proof -
  let ?l = "work [(tmux, 0), (gitconfig, 0)]"
  have h: "disk home = disk_home" by (simp add: home_def)
  have t: "node_get_status 1000 git_plain (disk home) tmux 0 = Inr Missing"
    unfolding thousand h by (rule tmux_Missing)
  have g: "node_get_status 1000 git_plain (disk home) gitconfig 0 = Inr Conflicted"
    unfolding thousand h by (rule gitconfig_Conflicted)
  have g1: "node_get_status 1000 git_plain (disk home_tmux) gitconfig 0 = Inr Conflicted"
    unfolding thousand by (rule home_tmux_status)
  have "node_merge 1000 git_plain home tmux 0 = (Returned, home_tmux)"
    unfolding thousand by (rule merge_tmux)
  then have m: "merge_nodes 1000 git_plain home [(tmux, 0)] = (Returned, home_tmux)"
    by simp
  have nodes: "layer_nodes ?l = [(tmux, 0)] @ (gitconfig, 0) # []"
    by (simp add: work_def)
  have ok: "\<forall>(h, k)\<in>set []. node_get_status 1000 git_plain (disk home) h k = Inr Symlinked
                          \<or> node_get_status 1000 git_plain (disk home) h k = Inr Identical"
    by simp
  have d: "distinct (map node_target [(tmux, 0)])" by simp
  have before: "disk home ''/home/u/.tmux.conf'' = None"
    by (simp add: home_def disk_home_def)
  have after: "disk home_tmux ''/home/u/.tmux.conf'' = Some (Symlink ''/dot/work/home/.tmux.conf'')"
    by (simp add: home_tmux_def)
  have hooks: "hook_calls home = []" by (simp add: home_def)
  from layer_merge_not_atomic[of ?l "[(tmux, 0)]" gitconfig 0 "[]" "[]" tmux 0 "[]" 1000 git_plain home home_tmux,
      OF nodes _ ok t m _ d] g1 t g before after hooks
  show ?thesis by simp
qed

end
